theory Spec2Isabelle
  imports Main
begin

section \<open>Path utilities (src/paths.ts)\<close>

text \<open>
  JavaScript strings are modelled as \<^typ>\<open>string\<close>: one \<^typ>\<open>char\<close> per
  code unit, restricted to the code units below 256. \<open>length\<close> is then the
  \<open>.length\<close> of the source, and the control characters of the source's regular
  expression \<open>[\x00-\x1f]\<close> are the characters whose code is below 32.
\<close>

definition MAX_PATH_LENGTH :: nat where
  "MAX_PATH_LENGTH = 4096"

datatype path_error = NotAString | TooLong | NullByte | ControlChar

text \<open>\<open>String.prototype.startsWith\<close>.\<close>

definition startsWith :: "string \<Rightarrow> string \<Rightarrow> bool" where
  "startsWith s pre = (take (length pre) s = pre)"

text \<open>
  \<open>s.split("/")\<close>: the pieces between separators, empty pieces kept;
  the empty string splits into one empty piece.
\<close>

fun split_slash :: "string \<Rightarrow> string list" where
  "split_slash [] = [[]]"
| "split_slash (c # cs) =
     (if c = CHR ''/'' then [] # split_slash cs
      else (case split_slash cs of
              [] \<Rightarrow> [[c]]
            | w # ws \<Rightarrow> (c # w) # ws))"

text \<open>\<open>xs.join("/")\<close>.\<close>

fun join_slash :: "string list \<Rightarrow> string" where
  "join_slash [] = []"
| "join_slash [s] = s"
| "join_slash (s # t # ss) = s @ CHR ''/'' # join_slash (t # ss)"

text \<open>
  The loop of \<open>normalizePath\<close> over the segments, with the array \<open>resolved\<close>
  as accumulator; \<open>pop\<close> on an empty array does nothing.
\<close>

fun resolve_segments :: "string list \<Rightarrow> string list \<Rightarrow> string list" where
  "resolve_segments resolved [] = resolved"
| "resolve_segments resolved (seg # segs) =
     (if seg = [] \<or> seg = ''.'' then resolve_segments resolved segs
      else if seg = ''..'' then resolve_segments (butlast resolved) segs
      else resolve_segments (resolved @ [seg]) segs)"

definition normalizePath :: "string \<Rightarrow> string" where
  "normalizePath input =
     (if input = [] then ''/''
      else let p = (if startsWith input ''/'' then input else CHR ''/'' # input)
           in CHR ''/'' # join_slash (resolve_segments [] (split_slash p)))"

text \<open>
  \<open>s.lastIndexOf("/")\<close> (\<open>-1\<close> when there is none), \<open>s.slice(start)\<close> and
  \<open>s.slice(start, end)\<close> with JavaScript's treatment of negative indices.
\<close>

fun lastIndexOf_from :: "int \<Rightarrow> int \<Rightarrow> string \<Rightarrow> int" where
  "lastIndexOf_from i found [] = found"
| "lastIndexOf_from i found (c # cs) =
     lastIndexOf_from (i + 1) (if c = CHR ''/'' then i else found) cs"

definition lastIndexOf_slash :: "string \<Rightarrow> int" where
  "lastIndexOf_slash s = lastIndexOf_from 0 (- 1) s"

definition slice_index :: "string \<Rightarrow> int \<Rightarrow> nat" where
  "slice_index s i =
     (if i < 0 then nat (max (int (length s) + i) 0) else min (nat i) (length s))"

definition slice_from :: "string \<Rightarrow> int \<Rightarrow> string" where
  "slice_from s start = drop (slice_index s start) s"

definition slice :: "string \<Rightarrow> int \<Rightarrow> int \<Rightarrow> string" where
  "slice s start end = drop (slice_index s start) (take (slice_index s end) s)"

definition parentPath :: "string \<Rightarrow> string" where
  "parentPath p =
     (let normalized = normalizePath p in
      if normalized = ''/'' then ''/''
      else let lastSlash = lastIndexOf_slash normalized in
           if lastSlash = 0 then ''/'' else slice normalized 0 lastSlash)"

definition basename :: "string \<Rightarrow> string" where
  "basename p =
     (let normalized = normalizePath p in
      if normalized = ''/'' then ''/''
      else slice_from normalized (lastIndexOf_slash normalized + 1))"

text \<open>
  \<open>ancestorPaths\<close>: the loop \<open>for (i = 0; i < segments.length - 1; i++)\<close> pushes
  the join of the first \<open>i + 1\<close> segments.
\<close>

definition ancestorPaths :: "string \<Rightarrow> string list" where
  "ancestorPaths p =
     (let normalized = normalizePath p in
      if normalized = ''/'' then []
      else let segments = filter (\<lambda>s. s \<noteq> []) (split_slash normalized) in
           ''/'' # map (\<lambda>i. CHR ''/'' # join_slash (take (i + 1) segments))
                       [0 ..< length segments - 1])"

text \<open>
  The argument of \<open>validatePath\<close> is typed \<open>string\<close>, and the function still
  tests \<open>typeof input\<close> at run time: a value is a string or something else.
\<close>

datatype js_value = JString string | JOther

definition is_control :: "char \<Rightarrow> bool" where
  "is_control c = ((of_char c :: nat) < 32)"

definition validatePath :: "js_value \<Rightarrow> path_error + string" where
  "validatePath v =
     (case v of
        JOther \<Rightarrow> Inl NotAString
      | JString input \<Rightarrow>
          if length input > MAX_PATH_LENGTH then Inl TooLong
          else if CHR 0x00 \<in> set input then Inl NullByte
          else let normalized = normalizePath input in
               if \<exists>c \<in> set input. is_control c then Inl ControlChar
               else Inr normalized)"

section \<open>The relational store (src/storage/schema.ts, src/storage/postgres.ts)\<close>

text \<open>
  The two tables of \<open>SCHEMA_SQL\<close>, each a list of rows in table order. The generated
  \<open>id\<close> column and the timestamps \<open>created_at\<close>, \<open>updated_at\<close> are left out: no
  query of the backend selects on them and no operation result below contains them.
  The column \<open>id\<close> of \<open>vfs_sessions\<close> is the field \<open>id_col\<close>. The backend object
  also holds the cache \<open>knownNamespaces\<close>.

  Three constraints of the schema are part of the model: \<open>UNIQUE (session_id, path)\<close>
  (the conflict target of every \<open>INSERT\<close>, and a possible failure of the \<open>UPDATE\<close> in
  \<open>moveNode\<close>), \<open>session_id REFERENCES vfs_sessions(id)\<close> (an \<open>INSERT\<close> of a node
  whose namespace has no session row fails) and the \<open>CHECK\<close> on \<open>node_type\<close> (the
  datatype has the two values only).

  With \<open>enableRls\<close> the helper \<open>query\<close> first sets \<open>app.vfs_session_id\<close> to the
  namespace that the statement itself filters on (\<open>session_id = $1\<close>), so the policies
  of \<open>RLS_SQL\<close> admit exactly the rows the statement touches; the flag does not change
  any result and is not a field of the model.
\<close>

datatype node_type = File | Directory

record session_row =
  id_col :: string
  is_persistent :: bool

record node_row =
  session_id :: string
  path :: string
  node_type :: node_type
  content :: "string option"

record backend =
  vfs_sessions :: "session_row list"
  vfs_nodes :: "node_row list"
  knownNamespaces :: "string set"

datatype db_error = ForeignKeyViolation | UniqueViolation

datatype vfs_code = ENOENT | EISDIR | ENOTDIR | EEXIST | EINVAL

text \<open>
  What an operation can throw: a \<open>PathError\<close>, a \<open>VfsError\<close> with its code, an
  error of the database that the backend lets through, or the error of the glob
  compiler. The message texts are left out; the constructor of \<^typ>\<open>path_error\<close>
  tells which message \<open>validatePath\<close> raised.
\<close>

datatype error =
    PathError path_error
  | VfsError vfs_code
  | DatabaseError db_error
  | PatternError

text \<open>
  Every operation returns its outcome together with the store it leaves: no
  operation runs in a transaction, so the statements executed before a throw stay
  executed.
\<close>

type_synonym 'a outcome = "(error + 'a) \<times> backend"

definition and_then :: "'a outcome \<Rightarrow> ('a \<Rightarrow> backend \<Rightarrow> 'b outcome) \<Rightarrow> 'b outcome" where
  "and_then r f = (case r of (Inl e, s) \<Rightarrow> (Inl e, s) | (Inr x, s) \<Rightarrow> f x s)"

subsection \<open>The SQL operators the statements use\<close>

definition backslash :: char where
  "backslash = CHR 0x5C"

text \<open>
  \<open>text LIKE pattern\<close> of PostgreSQL with the default escape character: \<open>%\<close>
  matches any run of characters, \<open>_\<close> any one character, a backslash makes the next
  pattern character literal, every other character matches itself. PostgreSQL
  raises an error when matching reaches a backslash that ends the pattern; every
  pattern the backend builds ends in \<open>%\<close>, and the model answers \<open>False\<close> there.
\<close>

fun like_match :: "string \<Rightarrow> string \<Rightarrow> bool" where
  "like_match t [] = (t = [])"
| "like_match t (p # ps) =
     (if p = CHR ''%'' then
        (like_match t ps \<or> (case t of [] \<Rightarrow> False | c # cs \<Rightarrow> like_match cs (p # ps)))
      else if p = CHR ''_'' then
        (case t of [] \<Rightarrow> False | c # cs \<Rightarrow> like_match cs ps)
      else if p = backslash then
        (case ps of
           [] \<Rightarrow> False
         | q # qs \<Rightarrow> (case t of [] \<Rightarrow> False | c # cs \<Rightarrow> c = q \<and> like_match cs qs))
      else
        (case t of [] \<Rightarrow> False | c # cs \<Rightarrow> c = p \<and> like_match cs ps))"

text \<open>\<open>substr(text, from)\<close>, positions counted from 1.\<close>

definition substr :: "string \<Rightarrow> nat \<Rightarrow> string" where
  "substr t from = drop (from - 1) t"

text \<open>
  \<open>ORDER BY\<close> and \<open>Array.prototype.sort\<close> are both modelled by a stable insertion
  sort driven by a comparator that returns a negative number, zero or a positive
  number. The collation of the database and \<open>String.prototype.localeCompare\<close> are
  parameters of the operations that sort.
\<close>

fun insert_by :: "('a \<Rightarrow> 'a \<Rightarrow> int) \<Rightarrow> 'a \<Rightarrow> 'a list \<Rightarrow> 'a list" where
  "insert_by cmp x [] = [x]"
| "insert_by cmp x (y # ys) =
     (if cmp x y \<le> 0 then x # y # ys else y # insert_by cmp x ys)"

definition sort_by :: "('a \<Rightarrow> 'a \<Rightarrow> int) \<Rightarrow> 'a list \<Rightarrow> 'a list" where
  "sort_by cmp xs = foldr (insert_by cmp) xs []"

subsection \<open>Session and store management\<close>

definition session_exists :: "backend \<Rightarrow> string \<Rightarrow> bool" where
  "session_exists s i = (i \<in> set (map id_col (vfs_sessions s)))"

text \<open>\<open>INSERT INTO vfs_sessions ... ON CONFLICT (id) DO NOTHING\<close>.\<close>

definition insertSession :: "backend \<Rightarrow> string \<Rightarrow> bool \<Rightarrow> backend" where
  "insertSession s i persistent =
     (if session_exists s i then s
      else s\<lparr>vfs_sessions :=
                vfs_sessions s @ [\<lparr>id_col = i, is_persistent = persistent\<rparr>]\<rparr>)"

subsection \<open>Node operations\<close>

definition row_at :: "string \<Rightarrow> string \<Rightarrow> node_row \<Rightarrow> bool" where
  "row_at namespaceId p r = (session_id r = namespaceId \<and> path r = p)"

text \<open>
  \<open>getNode\<close> returns \<open>rows[0]\<close> of the selection, or \<open>null\<close>. The \<open>VfsNode\<close> it
  builds has the fields of the row under camel-case names; the model returns the row.
\<close>

definition getNode :: "backend \<Rightarrow> string \<Rightarrow> string \<Rightarrow> node_row option" where
  "getNode s namespaceId p = find (row_at namespaceId p) (vfs_nodes s)"

definition child_prefix :: "string \<Rightarrow> string" where
  "child_prefix dirPath = (if dirPath = ''/'' then ''/'' else dirPath @ ''/'')"

text \<open>The \<open>WHERE\<close> clause shared by \<open>countChildren\<close> and \<open>listChildren\<close>.\<close>

definition child_row :: "string \<Rightarrow> string \<Rightarrow> node_row \<Rightarrow> bool" where
  "child_row namespaceId dirPath r =
     (session_id r = namespaceId
      \<and> like_match (path r) (child_prefix dirPath @ ''%'')
      \<and> \<not> like_match (path r) (child_prefix dirPath @ ''%/%'')
      \<and> path r \<noteq> dirPath)"

definition countChildren :: "backend \<Rightarrow> string \<Rightarrow> string \<Rightarrow> nat" where
  "countChildren s namespaceId dirPath =
     length (filter (child_row namespaceId dirPath) (vfs_nodes s))"

text \<open>The selection has no \<open>ORDER BY\<close>; the model returns the rows in table order.\<close>

definition listChildren :: "backend \<Rightarrow> string \<Rightarrow> string \<Rightarrow> node_row list" where
  "listChildren s namespaceId dirPath =
     filter (child_row namespaceId dirPath) (vfs_nodes s)"

text \<open>
  An \<open>INSERT ... ON CONFLICT\<close>: when a row with the key exists the conflict action
  \<open>on_conflict\<close> is applied to it, otherwise the new row is added, which needs the
  session row of its namespace.
\<close>

definition insert_on_conflict ::
  "backend \<Rightarrow> node_row \<Rightarrow> (node_row \<Rightarrow> node_row) \<Rightarrow> unit outcome" where
  "insert_on_conflict s new on_conflict =
     (if getNode s (session_id new) (path new) \<noteq> None then
        (Inr (), s\<lparr>vfs_nodes :=
                     map (\<lambda>r. if row_at (session_id new) (path new) r
                               then on_conflict r else r) (vfs_nodes s)\<rparr>)
      else if \<not> session_exists s (session_id new) then
        (Inl (DatabaseError ForeignKeyViolation), s)
      else (Inr (), s\<lparr>vfs_nodes := vfs_nodes s @ [new]\<rparr>))"

definition upsertFile :: "backend \<Rightarrow> string \<Rightarrow> string \<Rightarrow> string \<Rightarrow> unit outcome" where
  "upsertFile s namespaceId p c =
     insert_on_conflict s
       \<lparr>session_id = namespaceId, path = p, node_type = File, content = Some c\<rparr>
       (\<lambda>r. r\<lparr>content := Some c\<rparr>)"

text \<open>\<open>COALESCE(vfs_nodes.content, '') || EXCLUDED.content\<close> on conflict.\<close>

definition appendFile :: "backend \<Rightarrow> string \<Rightarrow> string \<Rightarrow> string \<Rightarrow> unit outcome" where
  "appendFile s namespaceId p c =
     insert_on_conflict s
       \<lparr>session_id = namespaceId, path = p, node_type = File, content = Some c\<rparr>
       (\<lambda>r. r\<lparr>content := Some ((case content r of None \<Rightarrow> [] | Some old \<Rightarrow> old) @ c)\<rparr>)"

definition insertDir :: "backend \<Rightarrow> string \<Rightarrow> string \<Rightarrow> unit outcome" where
  "insertDir s namespaceId p =
     insert_on_conflict s
       \<lparr>session_id = namespaceId, path = p, node_type = Directory, content = None\<rparr>
       (\<lambda>r. r)"

text \<open>The \<open>WHERE\<close> clause shared by \<open>deleteNode\<close> and \<open>moveNode\<close>.\<close>

definition subtree_row :: "string \<Rightarrow> string \<Rightarrow> node_row \<Rightarrow> bool" where
  "subtree_row namespaceId p r =
     (session_id r = namespaceId \<and> (path r = p \<or> like_match (path r) (p @ ''/%'')))"

definition deleteNode :: "backend \<Rightarrow> string \<Rightarrow> string \<Rightarrow> nat \<times> backend" where
  "deleteNode s namespaceId p =
     (length (filter (subtree_row namespaceId p) (vfs_nodes s)),
      s\<lparr>vfs_nodes := filter (\<lambda>r. \<not> subtree_row namespaceId p r) (vfs_nodes s)\<rparr>)"

text \<open>
  The single \<open>UPDATE\<close> of \<open>moveNode\<close>. It fails, changing nothing, when the rows
  it produces break \<open>UNIQUE (session_id, path)\<close>. (PostgreSQL checks the constraint
  row by row while the statement runs; the model checks the table the statement
  would leave.)
\<close>

definition moveNode :: "backend \<Rightarrow> string \<Rightarrow> string \<Rightarrow> string \<Rightarrow> unit outcome" where
  "moveNode s namespaceId sourcePath destPath =
     (let rows = map (\<lambda>r. if subtree_row namespaceId sourcePath r
                           then r\<lparr>path := destPath @ substr (path r) (length sourcePath + 1)\<rparr>
                           else r) (vfs_nodes s)
      in if distinct (map (\<lambda>r. (session_id r, path r)) rows)
         then (Inr (), s\<lparr>vfs_nodes := rows\<rparr>)
         else (Inl (DatabaseError UniqueViolation), s))"

text \<open>
  \<open>allFilePaths\<close>: \<open>ORDER BY path\<close> sorts by the collation of the column, the
  parameter \<open>collate\<close>.
\<close>

definition allFilePaths ::
  "(string \<Rightarrow> string \<Rightarrow> int) \<Rightarrow> backend \<Rightarrow> string \<Rightarrow> string list" where
  "allFilePaths collate s namespaceId =
     sort_by collate
       (map path (filter (\<lambda>r. session_id r = namespaceId \<and> node_type r = File)
                         (vfs_nodes s)))"

text \<open>
  \<open>ensureSession\<close> and \<open>ensureStore\<close> differ in the flag they insert;
  \<open>resolveNamespace\<close> takes the store when the argument is given and not empty
  (\<open>if (store)\<close>).
\<close>

definition ensureNamespace :: "backend \<Rightarrow> string \<Rightarrow> bool \<Rightarrow> unit outcome" where
  "ensureNamespace s i persistent =
     (if i \<in> knownNamespaces s then (Inr (), s)
      else and_then (insertDir (insertSession s i persistent) i ''/'')
             (\<lambda>_ s'. (Inr (), s'\<lparr>knownNamespaces := insert i (knownNamespaces s')\<rparr>)))"

definition ensureSession :: "backend \<Rightarrow> string \<Rightarrow> unit outcome" where
  "ensureSession s i = ensureNamespace s i False"

definition ensureStore :: "backend \<Rightarrow> string \<Rightarrow> unit outcome" where
  "ensureStore s n = ensureNamespace s n True"

definition resolveNamespace :: "backend \<Rightarrow> string \<Rightarrow> string option \<Rightarrow> string outcome" where
  "resolveNamespace s sessionId store =
     (case store of
        Some st \<Rightarrow>
          if st \<noteq> [] then and_then (ensureStore s st) (\<lambda>_ s'. (Inr st, s'))
          else and_then (ensureSession s sessionId) (\<lambda>_ s'. (Inr sessionId, s'))
      | None \<Rightarrow> and_then (ensureSession s sessionId) (\<lambda>_ s'. (Inr sessionId, s')))"

section \<open>The virtual filesystem (src/vfs.ts)\<close>

definition MAX_GLOB_PATHS :: nat where
  "MAX_GLOB_PATHS = 10000"

record LsEntry =
  name :: string
  entry_type :: node_type

text \<open>
  \<open>StatResult\<close>: \<open>exists\<close> and the optional fields \<open>type\<close>, \<open>size\<close> and
  \<open>children\<close> (here \<open>stat_type\<close>, \<open>stat_size\<close>, \<open>stat_children\<close>).
\<close>

record StatResult =
  exists :: bool
  stat_type :: "node_type option"
  stat_size :: "nat option"
  stat_children :: "nat option"

record WriteResult =
  created_parents :: bool

record MkdirResult =
  already_existed :: bool

text \<open>The paths of the operations are typed \<open>string\<close> and go through \<open>validatePath\<close>.\<close>

definition validated :: "backend \<Rightarrow> string \<Rightarrow> (string \<Rightarrow> 'a outcome) \<Rightarrow> 'a outcome" where
  "validated s p f =
     (case validatePath (JString p) of
        Inl e \<Rightarrow> (Inl (PathError e), s)
      | Inr q \<Rightarrow> f q)"

definition ns :: "backend \<Rightarrow> string \<Rightarrow> string option \<Rightarrow> string outcome" where
  "ns s sessionId store = resolveNamespace s sessionId store"

fun insert_dirs :: "backend \<Rightarrow> string \<Rightarrow> string list \<Rightarrow> unit outcome" where
  "insert_dirs s namespaceId [] = (Inr (), s)"
| "insert_dirs s namespaceId (ancestor # rest) =
     and_then (insertDir s namespaceId ancestor) (\<lambda>_ s'. insert_dirs s' namespaceId rest)"

definition ensureParents :: "backend \<Rightarrow> string \<Rightarrow> string \<Rightarrow> unit outcome" where
  "ensureParents s namespaceId p = insert_dirs s namespaceId (ancestorPaths p)"

definition is_type :: "node_row option \<Rightarrow> node_type \<Rightarrow> bool" where
  "is_type node t = (case node of None \<Rightarrow> False | Some n \<Rightarrow> node_type n = t)"

definition stat :: "backend \<Rightarrow> string \<Rightarrow> string \<Rightarrow> string option \<Rightarrow> StatResult outcome" where
  "stat s sessionId p0 store =
     validated s p0 (\<lambda>p.
       and_then (ns s sessionId store) (\<lambda>nsId s1.
         case getNode s1 nsId p of
           None \<Rightarrow>
             (Inr \<lparr>exists = False, stat_type = None, stat_size = None,
                   stat_children = None\<rparr>, s1)
         | Some node \<Rightarrow>
             if node_type node = File then
               (Inr \<lparr>exists = True, stat_type = Some File,
                     stat_size = Some (length (case content node of None \<Rightarrow> [] | Some c \<Rightarrow> c)),
                     stat_children = None\<rparr>, s1)
             else
               (Inr \<lparr>exists = True, stat_type = Some Directory, stat_size = None,
                     stat_children = Some (countChildren s1 nsId p)\<rparr>, s1)))"

definition read :: "backend \<Rightarrow> string \<Rightarrow> string \<Rightarrow> string option \<Rightarrow> string outcome" where
  "read s sessionId p0 store =
     validated s p0 (\<lambda>p.
       and_then (ns s sessionId store) (\<lambda>nsId s1.
         case getNode s1 nsId p of
           None \<Rightarrow> (Inl (VfsError ENOENT), s1)
         | Some node \<Rightarrow>
             if node_type node = Directory then (Inl (VfsError EISDIR), s1)
             else (Inr (case content node of None \<Rightarrow> [] | Some c \<Rightarrow> c), s1)))"

text \<open>\<open>VirtualFS.write\<close> (\<open>write\<close> is a keyword of Isabelle).\<close>

definition write_file ::
  "backend \<Rightarrow> string \<Rightarrow> string \<Rightarrow> string \<Rightarrow> string option \<Rightarrow> WriteResult outcome" where
  "write_file s sessionId p0 c store =
     validated s p0 (\<lambda>p.
       if p = ''/'' then (Inl (VfsError EINVAL), s)
       else
         and_then (ns s sessionId store) (\<lambda>nsId s1.
           if is_type (getNode s1 nsId p) Directory then (Inl (VfsError EISDIR), s1)
           else
             let ancestors = ancestorPaths p;
                 createdParents = (length ancestors > 1)
             in and_then (ensureParents s1 nsId p) (\<lambda>_ s2.
                  and_then (upsertFile s2 nsId p c) (\<lambda>_ s3.
                    (Inr \<lparr>created_parents = createdParents\<rparr>, s3)))))"

definition append ::
  "backend \<Rightarrow> string \<Rightarrow> string \<Rightarrow> string \<Rightarrow> string option \<Rightarrow> unit outcome" where
  "append s sessionId p0 c store =
     validated s p0 (\<lambda>p.
       if p = ''/'' then (Inl (VfsError EINVAL), s)
       else
         and_then (ns s sessionId store) (\<lambda>nsId s1.
           if is_type (getNode s1 nsId p) Directory then (Inl (VfsError EISDIR), s1)
           else
             and_then (ensureParents s1 nsId p) (\<lambda>_ s2.
               appendFile s2 nsId p c)))"

text \<open>
  The comparator of \<open>ls\<close>, with \<open>localeCompare\<close> as parameter, and the listing.
  \<open>Array.prototype.sort\<close> is stable, so for a comparator that is a total preorder
  its result is that of the stable insertion sort \<open>sort_by\<close>.
\<close>

definition ls_compare :: "(string \<Rightarrow> string \<Rightarrow> int) \<Rightarrow> LsEntry \<Rightarrow> LsEntry \<Rightarrow> int" where
  "ls_compare localeCompare a b =
     (if entry_type a \<noteq> entry_type b
      then (if entry_type a = Directory then - 1 else 1)
      else localeCompare (name a) (name b))"

definition ls ::
  "(string \<Rightarrow> string \<Rightarrow> int) \<Rightarrow> backend \<Rightarrow> string \<Rightarrow> string \<Rightarrow> string option
     \<Rightarrow> LsEntry list outcome" where
  "ls localeCompare s sessionId p0 store =
     validated s p0 (\<lambda>p.
       and_then (ns s sessionId store) (\<lambda>nsId s1.
         case getNode s1 nsId p of
           None \<Rightarrow> (Inl (VfsError ENOENT), s1)
         | Some node \<Rightarrow>
             if node_type node \<noteq> Directory then (Inl (VfsError ENOTDIR), s1)
             else
               (Inr (sort_by (ls_compare localeCompare)
                       (map (\<lambda>c. \<lparr>name = basename (path c), entry_type = node_type c\<rparr>)
                            (listChildren s1 nsId p))), s1)))"

definition mkdir :: "backend \<Rightarrow> string \<Rightarrow> string \<Rightarrow> string option \<Rightarrow> MkdirResult outcome" where
  "mkdir s sessionId p0 store =
     validated s p0 (\<lambda>p.
       if p = ''/'' then (Inr \<lparr>already_existed = True\<rparr>, s)
       else
         and_then (ns s sessionId store) (\<lambda>nsId s1.
           let existing = getNode s1 nsId p in
           if is_type existing File then (Inl (VfsError EEXIST), s1)
           else
             let alreadyExisted = is_type existing Directory
             in and_then (ensureParents s1 nsId p) (\<lambda>_ s2.
                  and_then (insertDir s2 nsId p) (\<lambda>_ s3.
                    (Inr \<lparr>already_existed = alreadyExisted\<rparr>, s3)))))"

definition rm :: "backend \<Rightarrow> string \<Rightarrow> string \<Rightarrow> string option \<Rightarrow> nat outcome" where
  "rm s sessionId p0 store =
     validated s p0 (\<lambda>p.
       if p = ''/'' then (Inl (VfsError EINVAL), s)
       else
         and_then (ns s sessionId store) (\<lambda>nsId s1.
           case getNode s1 nsId p of
             None \<Rightarrow> (Inl (VfsError ENOENT), s1)
           | Some node \<Rightarrow>
               (case deleteNode s1 nsId p of (n, s2) \<Rightarrow> (Inr n, s2))))"

definition move ::
  "backend \<Rightarrow> string \<Rightarrow> string \<Rightarrow> string \<Rightarrow> string option \<Rightarrow> unit outcome" where
  "move s sessionId source destination store =
     validated s source (\<lambda>src.
       validated s destination (\<lambda>dest.
         if src = ''/'' then (Inl (VfsError EINVAL), s)
         else if dest = ''/'' then (Inl (VfsError EINVAL), s)
         else if startsWith dest (src @ ''/'') then (Inl (VfsError EINVAL), s)
         else
           and_then (ns s sessionId store) (\<lambda>nsId s1.
             case getNode s1 nsId src of
               None \<Rightarrow> (Inl (VfsError ENOENT), s1)
             | Some srcNode \<Rightarrow>
                 (case getNode s1 nsId dest of
                    Some destNode \<Rightarrow> (Inl (VfsError EEXIST), s1)
                  | None \<Rightarrow>
                      let destParent = parentPath dest in
                      and_then (if destParent \<noteq> ''/'' then ensureParents s1 nsId dest
                                else (Inr (), s1))
                        (\<lambda>_ s2. moveNode s2 nsId src dest)))))"

text \<open>
  \<open>glob\<close>. The matcher library \<open>picomatch\<close> is not part of the sources: it is the
  parameter \<open>picomatch\<close>, which compiles a pattern to a predicate on paths or throws
  (\<open>None\<close>).
\<close>

definition glob ::
  "(string \<Rightarrow> (string \<Rightarrow> bool) option) \<Rightarrow> (string \<Rightarrow> string \<Rightarrow> int)
     \<Rightarrow> backend \<Rightarrow> string \<Rightarrow> string \<Rightarrow> string option \<Rightarrow> string list outcome" where
  "glob picomatch collate s sessionId pattern store =
     and_then (ns s sessionId store) (\<lambda>nsId s1.
       let allPaths = allFilePaths collate s1 nsId in
       if length allPaths > MAX_GLOB_PATHS then (Inl (VfsError EINVAL), s1)
       else (case picomatch pattern of
               None \<Rightarrow> (Inl PatternError, s1)
             | Some isMatch \<Rightarrow> (Inr (filter isMatch allPaths), s1)))"

text \<open>A backend object on a database whose two tables are empty.\<close>

definition empty_backend :: backend where
  "empty_backend = \<lparr>vfs_sessions = [], vfs_nodes = [], knownNamespaces = {}\<rparr>"

section \<open>Notions used to state the properties\<close>

text \<open>
  The namespace an operation works in: the store when one is given and not empty,
  otherwise the session. It is what \<open>resolveNamespace\<close> returns.
\<close>

definition namespaceOf :: "string \<Rightarrow> string option \<Rightarrow> string" where
  "namespaceOf sessionId store =
     (case store of Some st \<Rightarrow> if st \<noteq> [] then st else sessionId | None \<Rightarrow> sessionId)"

text \<open>
  The cache \<open>knownNamespaces\<close> agrees with the table \<open>vfs_sessions\<close> on a namespace:
  a namespace the backend takes for provisioned has its session row. (A retention
  sweep that deletes the row behind the backend's back breaks this, and then the
  next \<open>INSERT\<close> of a node fails on the foreign key.)
\<close>

definition usable :: "backend \<Rightarrow> string \<Rightarrow> bool" where
  "usable s i = (i \<in> knownNamespaces s \<longrightarrow> session_exists s i)"

definition same_sessions :: "backend \<Rightarrow> backend \<Rightarrow> bool" where
  "same_sessions s s' =
     (vfs_sessions s' = vfs_sessions s \<and> knownNamespaces s' = knownNamespaces s)"

text \<open>The rows of the node table that belong to other namespaces than \<open>n\<close>.\<close>

definition other_rows :: "string \<Rightarrow> backend \<Rightarrow> node_row list" where
  "other_rows n s = filter (\<lambda>r. session_id r \<noteq> n) (vfs_nodes s)"

text \<open>Segments of a normalized path.\<close>

definition slashfree :: "string \<Rightarrow> bool" where
  "slashfree w = (CHR ''/'' \<notin> set w)"

definition good_segment :: "string \<Rightarrow> bool" where
  "good_segment w = (w \<noteq> [] \<and> w \<noteq> ''.'' \<and> w \<noteq> ''..'' \<and> slashfree w)"

text \<open>
  Instances of the parameters, for the examples: comparison by character codes (the
  collation \<open>C\<close>, and a \<open>localeCompare\<close>), and a compiled glob that accepts the paths
  ending in the pattern.
\<close>

fun compare_codes :: "string \<Rightarrow> string \<Rightarrow> int" where
  "compare_codes [] [] = 0"
| "compare_codes [] (y # ys) = - 1"
| "compare_codes (x # xs) [] = 1"
| "compare_codes (x # xs) (y # ys) =
     (if (of_char x :: nat) < of_char y then - 1
      else if (of_char y :: nat) < of_char x then 1
      else compare_codes xs ys)"

definition suffix_glob :: "string \<Rightarrow> (string \<Rightarrow> bool) option" where
  "suffix_glob pattern =
     (if pattern = [] then None
      else Some (\<lambda>p. drop (length p - length pattern) p = pattern))"

text \<open>States the examples run on, each built by the operations themselves.\<close>

definition deep_path :: string where
  "deep_path = concat (replicate 51 ''/a'')"

definition nested_file :: backend where
  "nested_file = snd (write_file empty_backend ''s'' ''/deep/nested/file.txt'' ''c'' None)"

definition underscore_tree :: backend where
  "underscore_tree =
     snd (write_file (snd (mkdir empty_backend ''s'' ''/a_b'' None))
            ''s'' ''/a-b/f'' ''x'' None)"

definition backslash_dir :: string where
  "backslash_dir = ''/a'' @ [backslash] @ ''b''"

definition backslash_tree :: backend where
  "backslash_tree = snd (write_file empty_backend ''s'' (backslash_dir @ ''/f'') ''x'' None)"



text \<open>
  A path text that \<open>LIKE\<close> reads literally: no \<open>%\<close>, no \<open>_\<close> and no backslash. For
  such a path the selections of the backend are the descendants (\<open>in_subtree\<close>) and
  the children (\<open>is_child\<close>) of the path.
\<close>

definition like_safe :: "string \<Rightarrow> bool" where
  "like_safe p = list_all (\<lambda>c. c \<noteq> CHR ''%'' \<and> c \<noteq> CHR ''_'' \<and> c \<noteq> backslash) p"

definition in_subtree :: "string \<Rightarrow> string \<Rightarrow> node_row \<Rightarrow> bool" where
  "in_subtree n p r =
     (session_id r = n \<and> (path r = p \<or> startsWith (path r) (p @ ''/'')))"

definition is_child :: "string \<Rightarrow> string \<Rightarrow> node_row \<Rightarrow> bool" where
  "is_child n d r =
     (session_id r = n \<and> startsWith (path r) (child_prefix d)
      \<and> CHR ''/'' \<notin> set (drop (length (child_prefix d)) (path r)) \<and> path r \<noteq> d)"

text \<open>A comparator that is total and transitive.\<close>

definition total_preorder :: "('a \<Rightarrow> 'a \<Rightarrow> int) \<Rightarrow> bool" where
  "total_preorder cmp =
     ((\<forall>x y. cmp x y \<le> 0 \<or> cmp y x \<le> 0)
      \<and> (\<forall>x y z. cmp x y \<le> 0 \<longrightarrow> cmp y z \<le> 0 \<longrightarrow> cmp x z \<le> 0))"

section \<open>Lemmas: normalized paths\<close>

lemma split_slash_nonempty: "split_slash s \<noteq> []"
  by (induction s) (auto split: list.splits)

lemma split_slash_slashfree: "list_all slashfree (split_slash s)"
  by (induction s) (auto simp: slashfree_def split: list.splits)

lemma split_slash_piece:
  "slashfree w \<Longrightarrow> split_slash (w @ CHR ''/'' # rest) = w # split_slash rest"
  by (induction w) (auto simp: slashfree_def)

lemma split_slash_single: "slashfree w \<Longrightarrow> split_slash w = [w]"
  by (induction w) (auto simp: slashfree_def)

lemma split_join_slash:
  "segs \<noteq> [] \<Longrightarrow> list_all slashfree segs \<Longrightarrow> split_slash (join_slash segs) = segs"
proof (induction segs rule: join_slash.induct)
  case 1
  then show ?case by simp
next
  case (2 s)
  then show ?case by (simp add: split_slash_single)
next
  case (3 s t ss)
  then show ?case by (simp add: split_slash_piece)
qed

lemma resolve_segments_good:
  "list_all good_segment segs \<Longrightarrow> resolve_segments acc segs = acc @ segs"
  by (induction segs arbitrary: acc) (auto simp: good_segment_def)

lemma list_all_butlast: "list_all P xs \<Longrightarrow> list_all P (butlast xs)"
  by (induction xs) auto

lemma resolve_segments_all_good:
  "list_all good_segment acc \<Longrightarrow> list_all slashfree segs
     \<Longrightarrow> list_all good_segment (resolve_segments acc segs)"
proof (induction segs arbitrary: acc)
  case Nil
  then show ?case by simp
next
  case (Cons seg segs)
  then show ?case
    by (auto simp: good_segment_def list_all_butlast)
qed

lemma normalizePath_segments:
  "\<exists>segs. normalizePath p = CHR ''/'' # join_slash segs \<and> list_all good_segment segs"
proof (cases "p = []")
  case True
  have "normalizePath p = CHR ''/'' # join_slash []" using True by (simp add: normalizePath_def)
  then show ?thesis by (intro exI [of _ "[]"]) simp
next
  case False
  then show ?thesis
    by (auto simp: normalizePath_def Let_def split_slash_slashfree resolve_segments_all_good)
qed

lemma join_slash_Nil_iff:
  "list_all good_segment segs \<Longrightarrow> join_slash segs = [] \<longleftrightarrow> segs = []"
  by (induction segs rule: join_slash.induct) (auto simp: good_segment_def)

lemma good_slashfree: "list_all good_segment segs \<Longrightarrow> list_all slashfree segs"
  by (induction segs) (auto simp: good_segment_def)

lemma split_slash_normal:
  assumes "list_all good_segment segs"
  shows "filter (\<lambda>s. s \<noteq> []) (split_slash (CHR ''/'' # join_slash segs)) = segs"
proof (cases "segs = []")
  case True
  then show ?thesis by simp
next
  case False
  have "filter (\<lambda>s. s \<noteq> []) segs = segs"
    using assms by (induction segs) (auto simp: good_segment_def)
  then show ?thesis
    using False assms by (simp add: split_join_slash good_slashfree)
qed

lemma normalizePath_normal:
  assumes "list_all good_segment segs"
  shows "normalizePath (CHR ''/'' # join_slash segs) = CHR ''/'' # join_slash segs"
proof (cases "segs = []")
  case True
  then show ?thesis by (simp add: normalizePath_def startsWith_def)
next
  case False
  then show ?thesis
    using assms
    by (simp add: normalizePath_def startsWith_def split_join_slash good_slashfree
        resolve_segments_good)
qed

lemma normalizePath_idempotent: "normalizePath (normalizePath p) = normalizePath p"
  using normalizePath_segments [of p] normalizePath_normal by auto

lemma ancestorPaths_normal:
  assumes "list_all good_segment segs"
  shows "ancestorPaths (CHR ''/'' # join_slash segs) =
           (if segs = [] then []
            else ''/'' # map (\<lambda>i. CHR ''/'' # join_slash (take (i + 1) segs))
                            [0 ..< length segs - 1])"
  using assms
  by (simp add: ancestorPaths_def normalizePath_normal split_slash_normal
      join_slash_Nil_iff Let_def del: split_slash.simps)

lemma join_slash_inject:
  assumes "list_all slashfree xs" "list_all slashfree ys" "xs \<noteq> []" "ys \<noteq> []"
    and "join_slash xs = join_slash ys"
  shows "xs = ys"
  using assms split_join_slash by metis

lemma list_all_take: "list_all P xs \<Longrightarrow> list_all P (take n xs)"
  by (induction xs arbitrary: n) (auto simp: take_Cons split: nat.splits)

lemma normal_not_own_ancestor:
  assumes "list_all good_segment segs"
  shows "CHR ''/'' # join_slash segs \<notin> set (ancestorPaths (CHR ''/'' # join_slash segs))"
proof (cases "segs = []")
  case True
  then show ?thesis by (simp add: ancestorPaths_def normalizePath_def startsWith_def)
next
  case False
  have sf: "list_all slashfree segs" using assms by (rule good_slashfree)
  have root: "join_slash segs \<noteq> []" using assms False by (simp add: join_slash_Nil_iff)
  have ne: "join_slash (take (i + 1) segs) \<noteq> join_slash segs" if "i < length segs - 1" for i
  proof
    assume eq: "join_slash (take (i + 1) segs) = join_slash segs"
    have "take (i + 1) segs \<noteq> []" using False by simp
    then have "take (i + 1) segs = segs"
      using join_slash_inject [OF list_all_take [OF sf] sf _ False eq] by simp
    then have "length (take (i + 1) segs) = length segs" by simp
    then show False using that by simp
  qed
  show ?thesis
  proof
    assume "CHR ''/'' # join_slash segs \<in> set (ancestorPaths (CHR ''/'' # join_slash segs))"
    then obtain i where "i < length segs - 1"
      and "join_slash (take (i + 1) segs) = join_slash segs"
      using assms False root by (auto simp: ancestorPaths_normal)
    then show False using ne by blast
  qed
qed

lemma validatePath_normalized:
  "validatePath (JString p) = Inr q \<Longrightarrow> q = normalizePath p"
  by (auto simp: validatePath_def Let_def split: if_splits)

lemma not_own_ancestor:
  "validatePath (JString p) = Inr q \<Longrightarrow> q \<notin> set (ancestorPaths q)"
  using normalizePath_segments [of p] normal_not_own_ancestor validatePath_normalized
  by metis

lemma validatePath_idempotent:
  "validatePath (JString p) = Inr q \<Longrightarrow> normalizePath q = q"
  using normalizePath_idempotent validatePath_normalized by metis

section \<open>Lemmas: the store after an operation\<close>

lemma and_then_Inr [simp]: "and_then (Inr x, s) f = f x s"
  by (simp add: and_then_def)

lemma and_then_Inl [simp]: "and_then (Inl e, s) f = (Inl e, s)"
  by (simp add: and_then_def)

lemma same_sessions_refl [simp]: "same_sessions s s"
  by (simp add: same_sessions_def)

lemma same_sessions_trans:
  "same_sessions s s1 \<Longrightarrow> same_sessions s1 s2 \<Longrightarrow> same_sessions s s2"
  by (simp add: same_sessions_def)

lemma same_sessions_exists:
  "same_sessions s s' \<Longrightarrow> session_exists s' i = session_exists s i"
  by (simp add: same_sessions_def session_exists_def)

lemma find_map_conflict:
  assumes "\<And>r. session_id (f r) = session_id r" "\<And>r. path (f r) = path r"
  shows "find (row_at n p) (map (\<lambda>r. if row_at k q r then f r else r) rows) =
           (if n = k \<and> p = q then map_option f (find (row_at k q) rows)
            else find (row_at n p) rows)"
  using assms by (induction rows) (auto simp: row_at_def)

lemma find_row_at_append:
  "find (row_at n p) (rows @ [r]) =
     (case find (row_at n p) rows of
        Some x \<Rightarrow> Some x
      | None \<Rightarrow> if session_id r = n \<and> path r = p then Some r else None)"
  by (induction rows) (auto simp: row_at_def)

lemma insert_on_conflict_ok:
  assumes "\<And>r. session_id (f r) = session_id r" "\<And>r. path (f r) = path r"
    and "session_exists s (session_id new) \<or> getNode s (session_id new) (path new) \<noteq> None"
  shows "\<exists>s'. insert_on_conflict s new f = (Inr (), s') \<and> same_sessions s s' \<and>
           (\<forall>n p. getNode s' n p =
              (if n = session_id new \<and> p = path new
               then (case getNode s n p of None \<Rightarrow> Some new | Some r \<Rightarrow> Some (f r))
               else getNode s n p))"
proof (cases "getNode s (session_id new) (path new)")
  case None
  then show ?thesis
    using assms(3)
    by (auto simp: insert_on_conflict_def getNode_def same_sessions_def
        find_row_at_append split: option.splits)
next
  case (Some r)
  then show ?thesis
    by (auto simp: insert_on_conflict_def getNode_def same_sessions_def
        find_map_conflict [OF assms(1,2)] split: option.splits)
qed

lemma insertDir_ok:
  assumes "session_exists s n"
  shows "\<exists>s'. insertDir s n p = (Inr (), s') \<and> same_sessions s s' \<and>
           (\<forall>n' p'. getNode s' n' p' =
              (if n' = n \<and> p' = p \<and> getNode s n p = None
               then Some \<lparr>session_id = n, path = p, node_type = Directory, content = None\<rparr>
               else getNode s n' p'))"
proof -
  let ?new = "\<lparr>session_id = n, path = p, node_type = Directory, content = None\<rparr>"
  obtain s' where "insert_on_conflict s ?new (\<lambda>r. r) = (Inr (), s')" "same_sessions s s'"
    and g: "\<forall>n' p'. getNode s' n' p' =
              (if n' = session_id ?new \<and> p' = path ?new
               then (case getNode s n' p' of None \<Rightarrow> Some ?new | Some r \<Rightarrow> Some r)
               else getNode s n' p')"
    using insert_on_conflict_ok [of "\<lambda>r. r" s ?new] assms by auto
  then show ?thesis
    by (auto simp: insertDir_def split: option.splits)
qed

lemma insert_dirs_ok:
  assumes "session_exists s n"
  shows "\<exists>s'. insert_dirs s n dirs = (Inr (), s') \<and> same_sessions s s' \<and>
           (\<forall>n' p'. getNode s' n' p' =
              (if n' = n \<and> p' \<in> set dirs \<and> getNode s n p' = None
               then Some \<lparr>session_id = n, path = p', node_type = Directory, content = None\<rparr>
               else getNode s n' p'))"
  using assms
proof (induction dirs arbitrary: s)
  case Nil
  then show ?case by simp
next
  case (Cons d dirs)
  obtain s1 where 1: "insertDir s n d = (Inr (), s1)" "same_sessions s s1"
    and g1: "\<forall>n' p'. getNode s1 n' p' =
              (if n' = n \<and> p' = d \<and> getNode s n d = None
               then Some \<lparr>session_id = n, path = d, node_type = Directory, content = None\<rparr>
               else getNode s n' p')"
    using insertDir_ok [OF Cons.prems] by blast
  have "session_exists s1 n"
    using 1 Cons.prems by (simp add: same_sessions_exists)
  then obtain s2 where 2: "insert_dirs s1 n dirs = (Inr (), s2)" "same_sessions s1 s2"
    and g2: "\<forall>n' p'. getNode s2 n' p' =
              (if n' = n \<and> p' \<in> set dirs \<and> getNode s1 n p' = None
               then Some \<lparr>session_id = n, path = p', node_type = Directory, content = None\<rparr>
               else getNode s1 n' p')"
    using Cons.IH by blast
  have "insert_dirs s n (d # dirs) = (Inr (), s2)"
    using 1 2 by simp
  moreover have "same_sessions s s2"
    using 1 2 same_sessions_trans by blast
  moreover have "\<forall>n' p'. getNode s2 n' p' =
              (if n' = n \<and> p' \<in> set (d # dirs) \<and> getNode s n p' = None
               then Some \<lparr>session_id = n, path = p', node_type = Directory, content = None\<rparr>
               else getNode s n' p')"
    using g1 g2 by auto
  ultimately show ?case by blast
qed

lemma upsertFile_ok:
  assumes "session_exists s n"
  shows "\<exists>s'. upsertFile s n p c = (Inr (), s') \<and> same_sessions s s' \<and>
           (\<forall>n' p'. getNode s' n' p' =
              (if n' = n \<and> p' = p
               then (case getNode s n p of
                       None \<Rightarrow> Some \<lparr>session_id = n, path = p, node_type = File,
                                      content = Some c\<rparr>
                     | Some r \<Rightarrow> Some (r\<lparr>content := Some c\<rparr>))
               else getNode s n' p'))"
  using insert_on_conflict_ok
    [of "\<lambda>r. r\<lparr>content := Some c\<rparr>" s
        "\<lparr>session_id = n, path = p, node_type = File, content = Some c\<rparr>"] assms
  by (auto simp: upsertFile_def)


lemma getNode_insertSession [simp]: "getNode (insertSession s i b) n p = getNode s n p"
  by (simp add: insertSession_def getNode_def)

lemma session_exists_insertSession:
  "session_exists (insertSession s i b) j \<longleftrightarrow> j = i \<or> session_exists s j"
  by (auto simp: insertSession_def session_exists_def)

lemma knownNamespaces_insertSession [simp]:
  "knownNamespaces (insertSession s i b) = knownNamespaces s"
  by (simp add: insertSession_def)

lemma ensureNamespace_ok:
  "\<exists>s'. ensureNamespace s i b = (Inr (), s') \<and> (usable s i \<longrightarrow> session_exists s' i) \<and>
           knownNamespaces s' = insert i (knownNamespaces s) \<and>
           (i \<in> knownNamespaces s \<longrightarrow> s' = s) \<and>
           (\<forall>j. session_exists s j \<longrightarrow> session_exists s' j) \<and>
           (\<forall>n p. getNode s' n p =
              (if n = i \<and> p = ''/'' \<and> getNode s i ''/'' = None \<and> i \<notin> knownNamespaces s
               then Some \<lparr>session_id = i, path = ''/'', node_type = Directory, content = None\<rparr>
               else getNode s n p))"
proof (cases "i \<in> knownNamespaces s")
  case True
  then show ?thesis
    by (auto simp: ensureNamespace_def usable_def)
next
  case False
  let ?s0 = "insertSession s i b"
  have "session_exists ?s0 i" by (simp add: session_exists_insertSession)
  then obtain s1 where 1: "insertDir ?s0 i ''/'' = (Inr (), s1)" "same_sessions ?s0 s1"
    and g: "\<forall>n' p'. getNode s1 n' p' =
              (if n' = i \<and> p' = ''/'' \<and> getNode ?s0 i ''/'' = None
               then Some \<lparr>session_id = i, path = ''/'', node_type = Directory, content = None\<rparr>
               else getNode ?s0 n' p')"
    using insertDir_ok by blast
  let ?s' = "s1\<lparr>knownNamespaces := insert i (knownNamespaces s1)\<rparr>"
  have "ensureNamespace s i b = (Inr (), ?s')"
    using False 1 by (simp add: ensureNamespace_def)
  moreover have "session_exists ?s' i"
    using 1 by (simp add: session_exists_def same_sessions_def insertSession_def)
  moreover have "knownNamespaces ?s' = insert i (knownNamespaces s)"
    using 1 by (simp add: same_sessions_def)
  moreover have "\<forall>j. session_exists s j \<longrightarrow> session_exists ?s' j"
    using 1 by (auto simp: session_exists_def same_sessions_def insertSession_def)
  moreover have "\<forall>n p. getNode ?s' n p =
              (if n = i \<and> p = ''/'' \<and> getNode s i ''/'' = None \<and> i \<notin> knownNamespaces s
               then Some \<lparr>session_id = i, path = ''/'', node_type = Directory, content = None\<rparr>
               else getNode s n p)"
  proof -
    have "getNode ?s' n p = getNode s1 n p" for n p
      by (simp add: getNode_def)
    then show ?thesis using g False by simp
  qed
  ultimately show ?thesis using False by blast
qed

lemma resolveNamespace_ok:
  "\<exists>s'. resolveNamespace s sessionId store = (Inr (namespaceOf sessionId store), s') \<and>
           (usable s (namespaceOf sessionId store)
              \<longrightarrow> session_exists s' (namespaceOf sessionId store)) \<and>
           knownNamespaces s' = insert (namespaceOf sessionId store) (knownNamespaces s) \<and>
           (namespaceOf sessionId store \<in> knownNamespaces s \<longrightarrow> s' = s) \<and>
           (\<forall>j. session_exists s j \<longrightarrow> session_exists s' j) \<and>
           (\<forall>n p. getNode s' n p =
              (if n = namespaceOf sessionId store \<and> p = ''/''
                    \<and> getNode s n ''/'' = None \<and> n \<notin> knownNamespaces s
               then Some \<lparr>session_id = n, path = ''/'', node_type = Directory, content = None\<rparr>
               else getNode s n p))"
proof -
  let ?i = "namespaceOf sessionId store"
  have "resolveNamespace s sessionId store =
          and_then (ensureNamespace s ?i (store \<noteq> None \<and> store \<noteq> Some []))
            (\<lambda>_ s'. (Inr ?i, s'))"
    by (auto simp: resolveNamespace_def namespaceOf_def ensureStore_def ensureSession_def
        split: option.splits)
  then show ?thesis
    using ensureNamespace_ok [of s ?i "store \<noteq> None \<and> store \<noteq> Some []"] by auto
qed


lemma resolveNamespace_known:
  "namespaceOf sessionId store \<in> knownNamespaces s
     \<Longrightarrow> resolveNamespace s sessionId store = (Inr (namespaceOf sessionId store), s)"
  using resolveNamespace_ok [of s sessionId store] by auto

lemma validated_ok:
  "validatePath (JString p) = Inr q \<Longrightarrow> validated s p f = f q"
  by (simp add: validated_def)

lemma is_type_Directory_iff:
  "is_type node Directory \<longleftrightarrow> (\<exists>r. node = Some r \<and> node_type r = Directory)"
  by (auto simp: is_type_def split: option.splits)

lemma write_file_ok:
  assumes v: "validatePath (JString p) = Inr q" and nr: "q \<noteq> ''/''"
    and u: "usable s (namespaceOf sessionId store)"
    and nd: "\<not> is_type (getNode s (namespaceOf sessionId store) q) Directory"
  shows "\<exists>s'. write_file s sessionId p c store =
                 (Inr \<lparr>created_parents = (length (ancestorPaths q) > 1)\<rparr>, s') \<and>
           session_exists s' (namespaceOf sessionId store) \<and>
           knownNamespaces s' = insert (namespaceOf sessionId store) (knownNamespaces s) \<and>
           (\<forall>j. session_exists s j \<longrightarrow> session_exists s' j) \<and>
           (\<forall>n' p'. getNode s' n' p' =
              (if n' = namespaceOf sessionId store \<and> p' = q then
                 (case getNode s n' q of
                    None \<Rightarrow> Some \<lparr>session_id = n', path = q, node_type = File,
                                   content = Some c\<rparr>
                  | Some r \<Rightarrow> Some (r\<lparr>content := Some c\<rparr>))
               else if n' = namespaceOf sessionId store \<and> getNode s n' p' = None \<and>
                       (p' \<in> set (ancestorPaths q) \<or> (p' = ''/'' \<and> n' \<notin> knownNamespaces s))
               then Some \<lparr>session_id = n', path = p', node_type = Directory, content = None\<rparr>
               else getNode s n' p'))"
proof -
  let ?i = "namespaceOf sessionId store"
  obtain s1 where r1: "resolveNamespace s sessionId store = (Inr ?i, s1)"
    and e1: "session_exists s1 ?i"
    and k1: "knownNamespaces s1 = insert ?i (knownNamespaces s)"
    and m1: "\<forall>j. session_exists s j \<longrightarrow> session_exists s1 j"
    and g1: "\<forall>n p. getNode s1 n p =
              (if n = ?i \<and> p = ''/'' \<and> getNode s n ''/'' = None \<and> n \<notin> knownNamespaces s
               then Some \<lparr>session_id = n, path = ''/'', node_type = Directory, content = None\<rparr>
               else getNode s n p)"
    using resolveNamespace_ok [of s sessionId store] u by blast
  obtain s2 where r2: "insert_dirs s1 ?i (ancestorPaths q) = (Inr (), s2)"
    and ss2: "same_sessions s1 s2"
    and g2: "\<forall>n' p'. getNode s2 n' p' =
              (if n' = ?i \<and> p' \<in> set (ancestorPaths q) \<and> getNode s1 ?i p' = None
               then Some \<lparr>session_id = ?i, path = p', node_type = Directory, content = None\<rparr>
               else getNode s1 n' p')"
    using insert_dirs_ok [OF e1] by blast
  have e2: "session_exists s2 ?i"
    using e1 ss2 by (simp add: same_sessions_exists)
  obtain s3 where r3: "upsertFile s2 ?i q c = (Inr (), s3)"
    and ss3: "same_sessions s2 s3"
    and g3: "\<forall>n' p'. getNode s3 n' p' =
              (if n' = ?i \<and> p' = q
               then (case getNode s2 ?i q of
                       None \<Rightarrow> Some \<lparr>session_id = ?i, path = q, node_type = File,
                                      content = Some c\<rparr>
                     | Some r \<Rightarrow> Some (r\<lparr>content := Some c\<rparr>))
               else getNode s2 n' p')"
    using upsertFile_ok [OF e2] by blast
  have q1: "getNode s1 ?i q = getNode s ?i q"
    using g1 nr by simp
  have q2: "getNode s2 ?i q = getNode s ?i q"
    using g2 q1 not_own_ancestor [OF v] by simp
  have "write_file s sessionId p c store =
          (Inr \<lparr>created_parents = (length (ancestorPaths q) > 1)\<rparr>, s3)"
    using r1 r2 r3 nr nd q1
    by (simp add: write_file_def validated_ok [OF v] ns_def ensureParents_def Let_def)
  moreover have "session_exists s3 ?i"
    using e2 ss3 by (simp add: same_sessions_exists)
  moreover have "knownNamespaces s3 = insert ?i (knownNamespaces s)"
    using k1 ss2 ss3 by (simp add: same_sessions_def)
  moreover have "\<forall>j. session_exists s j \<longrightarrow> session_exists s3 j"
    using m1 ss2 ss3 by (simp add: same_sessions_exists)
  moreover have "\<forall>n' p'. getNode s3 n' p' =
              (if n' = ?i \<and> p' = q then
                 (case getNode s n' q of
                    None \<Rightarrow> Some \<lparr>session_id = n', path = q, node_type = File,
                                   content = Some c\<rparr>
                  | Some r \<Rightarrow> Some (r\<lparr>content := Some c\<rparr>))
               else if n' = ?i \<and> getNode s n' p' = None \<and>
                       (p' \<in> set (ancestorPaths q) \<or> (p' = ''/'' \<and> n' \<notin> knownNamespaces s))
               then Some \<lparr>session_id = n', path = p', node_type = Directory, content = None\<rparr>
               else getNode s n' p')"
    using g1 g2 g3 q2 by auto
  ultimately show ?thesis by blast
qed

lemma read_known:
  assumes "validatePath (JString p) = Inr q"
    and "namespaceOf sessionId store \<in> knownNamespaces s"
  shows "read s sessionId p store =
           (case getNode s (namespaceOf sessionId store) q of
              None \<Rightarrow> (Inl (VfsError ENOENT), s)
            | Some node \<Rightarrow>
                if node_type node = Directory then (Inl (VfsError EISDIR), s)
                else (Inr (case content node of None \<Rightarrow> [] | Some c \<Rightarrow> c), s))"
  using assms
  by (simp add: read_def validated_ok ns_def resolveNamespace_known)

lemma write_then_read:
  assumes v: "validatePath (JString p) = Inr q" and nr: "q \<noteq> ''/''"
    and u: "usable s (namespaceOf sessionId store)"
    and nd: "\<not> is_type (getNode s (namespaceOf sessionId store) q) Directory"
  shows "\<exists>r s'. write_file s sessionId p c store = (Inr r, s') \<and>
                 read s' sessionId p store = (Inr c, s')"
proof -
  let ?i = "namespaceOf sessionId store"
  obtain s' where w: "write_file s sessionId p c store =
                 (Inr \<lparr>created_parents = (length (ancestorPaths q) > 1)\<rparr>, s')"
    and k: "knownNamespaces s' = insert ?i (knownNamespaces s)"
    and g: "getNode s' ?i q =
                 (case getNode s ?i q of
                    None \<Rightarrow> Some \<lparr>session_id = ?i, path = q, node_type = File,
                                   content = Some c\<rparr>
                  | Some r \<Rightarrow> Some (r\<lparr>content := Some c\<rparr>))"
    using write_file_ok [OF v nr u nd, of c] by auto
  have "read s' sessionId p store = (Inr c, s')"
    using g nd k
    by (cases "getNode s ?i q"; cases "getNode s' ?i q")
       (auto simp: read_known [OF v] is_type_Directory_iff split: option.splits intro: node_type.exhaust)
  then show ?thesis using w by blast
qed

subsection \<open>Rows of other namespaces\<close>

lemma filter_map_untouched:
  assumes "\<And>r. P r \<Longrightarrow> g r = r" "\<And>r. \<not> P r \<Longrightarrow> \<not> P (g r)"
  shows "filter P (map g rows) = filter P rows"
  using assms by (induction rows) auto

lemma other_rows_insert_on_conflict:
  assumes "\<And>r. session_id (f r) = session_id r"
  shows "other_rows (session_id new) (snd (insert_on_conflict s new f)) =
           other_rows (session_id new) s"
proof -
  have "filter (\<lambda>r. session_id r \<noteq> session_id new)
          (map (\<lambda>r. if row_at (session_id new) (path new) r then f r else r) (vfs_nodes s)) =
        filter (\<lambda>r. session_id r \<noteq> session_id new) (vfs_nodes s)"
    by (rule filter_map_untouched) (auto simp: row_at_def assms)
  then show ?thesis
    by (simp add: insert_on_conflict_def other_rows_def)
qed

lemma other_rows_insertDir: "other_rows n (snd (insertDir s n p)) = other_rows n s"
  using other_rows_insert_on_conflict
    [of "\<lambda>r. r" "\<lparr>session_id = n, path = p, node_type = Directory, content = None\<rparr>" s]
  by (simp add: insertDir_def)

lemma other_rows_upsertFile: "other_rows n (snd (upsertFile s n p c)) = other_rows n s"
  using other_rows_insert_on_conflict
    [of "\<lambda>r. r\<lparr>content := Some c\<rparr>"
        "\<lparr>session_id = n, path = p, node_type = File, content = Some c\<rparr>" s]
  by (simp add: upsertFile_def)

lemma other_rows_appendFile: "other_rows n (snd (appendFile s n p c)) = other_rows n s"
  using other_rows_insert_on_conflict
    [of "\<lambda>r. r\<lparr>content := Some ((case content r of None \<Rightarrow> [] | Some old \<Rightarrow> old) @ c)\<rparr>"
        "\<lparr>session_id = n, path = p, node_type = File, content = Some c\<rparr>" s]
  by (simp add: appendFile_def)

lemma other_rows_deleteNode: "other_rows n (snd (deleteNode s n p)) = other_rows n s"
proof -
  have "filter (\<lambda>r. session_id r \<noteq> n) (filter (\<lambda>r. \<not> subtree_row n p r) rows) =
        filter (\<lambda>r. session_id r \<noteq> n) rows" for rows
    by (induction rows) (auto simp: subtree_row_def)
  then show ?thesis by (simp add: deleteNode_def other_rows_def)
qed

lemma other_rows_moveNode: "other_rows n (snd (moveNode s n src dest)) = other_rows n s"
proof -
  have "filter (\<lambda>r. session_id r \<noteq> n)
          (map (\<lambda>r. if subtree_row n src r
                     then r\<lparr>path := dest @ substr (path r) (length src + 1)\<rparr> else r)
               (vfs_nodes s)) =
        filter (\<lambda>r. session_id r \<noteq> n) (vfs_nodes s)"
    by (rule filter_map_untouched) (auto simp: subtree_row_def)
  then show ?thesis by (simp add: moveNode_def other_rows_def Let_def)
qed

lemma other_rows_and_then:
  assumes "\<And>x s1. other_rows n (snd (f x s1)) = other_rows n s1"
  shows "other_rows n (snd (and_then r f)) = other_rows n (snd r)"
  using assms by (cases r) (auto simp: and_then_def split: sum.splits)

lemma other_rows_known [simp]:
  "other_rows n (s\<lparr>knownNamespaces := k\<rparr>) = other_rows n s"
  by (simp add: other_rows_def)

lemma other_rows_insertSession [simp]:
  "other_rows n (insertSession s i b) = other_rows n s"
  by (simp add: other_rows_def insertSession_def)

lemma other_rows_ensureNamespace:
  "other_rows i (snd (ensureNamespace s i b)) = other_rows i s"
proof (cases "i \<in> knownNamespaces s")
  case True
  then show ?thesis by (simp add: ensureNamespace_def)
next
  case False
  have "other_rows i (snd (insertDir (insertSession s i b) i ''/'')) = other_rows i s"
    using other_rows_insertDir [of i "insertSession s i b" "''/''"] by simp
  then show ?thesis
    using False by (simp add: ensureNamespace_def other_rows_and_then)
qed

lemma other_rows_resolveNamespace:
  "other_rows (namespaceOf sessionId store) (snd (resolveNamespace s sessionId store)) =
     other_rows (namespaceOf sessionId store) s"
  by (auto simp: resolveNamespace_def namespaceOf_def ensureStore_def ensureSession_def
      other_rows_ensureNamespace other_rows_and_then split: option.splits)

lemma other_rows_insert_dirs:
  "other_rows n (snd (insert_dirs s n dirs)) = other_rows n s"
proof (induction dirs arbitrary: s)
  case Nil
  then show ?case by simp
next
  case (Cons d dirs)
  show ?case
    by (simp add: other_rows_and_then Cons.IH other_rows_insertDir)
qed

text \<open>
  An operation that runs in the namespace it resolved: the rows of the other
  namespaces are those it found.
\<close>

lemma ns_and_then:
  "and_then (ns s sessionId store) f =
     f (namespaceOf sessionId store) (snd (resolveNamespace s sessionId store))"
  using resolveNamespace_ok [of s sessionId store] by (auto simp: ns_def)

lemmas other_rows_simps =
  other_rows_and_then other_rows_insertDir other_rows_upsertFile other_rows_appendFile
  other_rows_deleteNode other_rows_moveNode other_rows_resolveNamespace
  other_rows_insert_dirs ns_and_then validated_def ensureParents_def Let_def


lemma append_frame:
  "other_rows (namespaceOf sessionId store) (snd (append s sessionId p c store)) =
     other_rows (namespaceOf sessionId store) s"
  by (simp add: append_def other_rows_simps split: sum.splits)

lemma mkdir_frame:
  "other_rows (namespaceOf sessionId store) (snd (mkdir s sessionId p store)) =
     other_rows (namespaceOf sessionId store) s"
  by (simp add: mkdir_def other_rows_simps split: sum.splits)

lemma rm_frame:
  "other_rows (namespaceOf sessionId store) (snd (rm s sessionId p store)) =
     other_rows (namespaceOf sessionId store) s"
  by (simp add: rm_def other_rows_simps split_beta split: sum.splits option.splits)

lemma move_frame:
  "other_rows (namespaceOf sessionId store) (snd (move s sessionId src dest store)) =
     other_rows (namespaceOf sessionId store) s"
  by (simp add: move_def other_rows_simps split: sum.splits option.splits)

lemma read_frame:
  "other_rows (namespaceOf sessionId store) (snd (read s sessionId p store)) =
     other_rows (namespaceOf sessionId store) s"
  by (simp add: read_def other_rows_simps split: sum.splits option.splits)

lemma stat_frame:
  "other_rows (namespaceOf sessionId store) (snd (stat s sessionId p store)) =
     other_rows (namespaceOf sessionId store) s"
  by (simp add: stat_def other_rows_simps split: sum.splits option.splits)

lemma ls_frame:
  "other_rows (namespaceOf sessionId store) (snd (ls lc s sessionId p store)) =
     other_rows (namespaceOf sessionId store) s"
  by (simp add: ls_def other_rows_simps split: sum.splits option.splits)

lemma glob_frame:
  "other_rows (namespaceOf sessionId store) (snd (glob pm col s sessionId pat store)) =
     other_rows (namespaceOf sessionId store) s"
  by (simp add: glob_def other_rows_simps split: sum.splits option.splits)

subsection \<open>What a successful \<open>write\<close> leaves, whatever the store was\<close>











lemma stat_returns:
  "validatePath (JString p) = Inr q \<Longrightarrow> \<exists>r. fst (stat s sessionId p store) = Inr r"
  by (simp add: stat_def validated_ok ns_and_then split: option.splits)

section \<open>Lemmas: the selections by \<open>LIKE\<close>, and sorting\<close>

declare like_match.simps(2) [simp del]

lemma like_match_literal:
  "c \<noteq> CHR ''%'' \<Longrightarrow> c \<noteq> CHR ''_'' \<Longrightarrow> c \<noteq> backslash \<Longrightarrow>
     like_match t (c # ps) = (case t of [] \<Rightarrow> False | x # xs \<Rightarrow> x = c \<and> like_match xs ps)"
  by (simp add: like_match.simps(2))

lemma like_match_any_run:
  "like_match t (CHR ''%'' # ps) =
     (like_match t ps \<or> (case t of [] \<Rightarrow> False | c # cs \<Rightarrow> like_match cs (CHR ''%'' # ps)))"
  by (simp add: like_match.simps(2))

lemma like_match_percent [simp]: "like_match t ''%''"
  by (induction t) (simp_all add: like_match_any_run)

lemma like_match_slash_percent:
  "like_match t ''/%'' \<longleftrightarrow> (case t of [] \<Rightarrow> False | x # xs \<Rightarrow> x = CHR ''/'')"
  by (simp add: like_match_literal backslash_def split: list.splits)

lemma like_match_anywhere_slash: "like_match t ''%/%'' \<longleftrightarrow> CHR ''/'' \<in> set t"
proof (induction t)
  case Nil
  show ?case
    by (simp add: like_match_any_run [of "[]"] like_match_slash_percent)
next
  case (Cons x xs)
  show ?case
    using Cons.IH
    by (auto simp: like_match_any_run [of "x # xs"] like_match_slash_percent)
qed

lemma like_match_prefix:
  "like_safe pre \<Longrightarrow> like_match t (pre @ ''%'') \<longleftrightarrow> startsWith t pre"
proof (induction pre arbitrary: t)
  case Nil
  then show ?case by (simp add: startsWith_def)
next
  case (Cons c pre)
  then show ?case
    by (cases t) (auto simp: like_safe_def startsWith_def like_match_literal)
qed

lemma like_match_prefix_deeper:
  "like_safe pre \<Longrightarrow>
     like_match t (pre @ ''%/%'') \<longleftrightarrow>
       startsWith t pre \<and> CHR ''/'' \<in> set (drop (length pre) t)"
proof (induction pre arbitrary: t)
  case Nil
  then show ?case
    using like_match_anywhere_slash [of t] by (simp add: startsWith_def)
next
  case (Cons c pre)
  then show ?case
    by (cases t) (auto simp: like_safe_def startsWith_def like_match_literal)
qed

lemma like_safe_append [simp]: "like_safe (p @ q) \<longleftrightarrow> like_safe p \<and> like_safe q"
  by (simp add: like_safe_def)

lemma like_safe_slash [simp]: "like_safe ''/''"
  by (simp add: like_safe_def backslash_def)

lemma like_safe_child_prefix: "like_safe d \<Longrightarrow> like_safe (child_prefix d)"
  by (simp add: child_prefix_def)

lemma subtree_row_safe: "like_safe p \<Longrightarrow> subtree_row n p = in_subtree n p"
proof
  fix r
  assume "like_safe p"
  then show "subtree_row n p r = in_subtree n p r"
    using like_match_prefix [of "p @ ''/''" "path r"]
    by (simp add: subtree_row_def in_subtree_def)
qed

lemma child_row_safe: "like_safe d \<Longrightarrow> child_row n d = is_child n d"
proof
  fix r
  assume "like_safe d"
  then show "child_row n d r = is_child n d r"
    using like_match_prefix [of "child_prefix d" "path r"]
      like_match_prefix_deeper [of "child_prefix d" "path r"]
    by (auto simp: child_row_def is_child_def like_safe_child_prefix)
qed

text \<open>
  What \<open>resolveNamespace\<close> leaves below the root: a node that is there stays, and a
  path other than the root is as it was.
\<close>

lemma getNode_resolved:
  "q \<noteq> ''/'' \<or> getNode s (namespaceOf sessionId store) q \<noteq> None \<Longrightarrow>
     getNode (snd (resolveNamespace s sessionId store)) (namespaceOf sessionId store) q =
     getNode s (namespaceOf sessionId store) q"
  using resolveNamespace_ok [of s sessionId store] by auto

subsection \<open>The failures of \<open>rm\<close>, \<open>move\<close>, \<open>ls\<close>, and \<open>stat\<close> on absent paths and files\<close>

lemma rm_root:
  "validatePath (JString p) = Inr ''/'' \<Longrightarrow> rm s sessionId p store = (Inl (VfsError EINVAL), s)"
  by (simp add: rm_def validated_ok)

lemma rm_absent:
  assumes "validatePath (JString p) = Inr q" "q \<noteq> ''/''"
    and "getNode s (namespaceOf sessionId store) q = None"
  shows "fst (rm s sessionId p store) = Inl (VfsError ENOENT)"
  using assms getNode_resolved [of q s sessionId store]
  by (simp add: rm_def validated_ok ns_and_then)

lemma rm_safe_path:
  assumes "validatePath (JString p) = Inr q" "q \<noteq> ''/''" "like_safe q"
    and "getNode s (namespaceOf sessionId store) q \<noteq> None"
  shows "rm s sessionId p store =
           (Inr (length (filter (in_subtree (namespaceOf sessionId store) q)
                   (vfs_nodes (snd (resolveNamespace s sessionId store))))),
            (snd (resolveNamespace s sessionId store))
              \<lparr>vfs_nodes := filter (\<lambda>r. \<not> in_subtree (namespaceOf sessionId store) q r)
                   (vfs_nodes (snd (resolveNamespace s sessionId store)))\<rparr>)"
  using assms getNode_resolved [of q s sessionId store]
  by (auto simp: rm_def validated_ok ns_and_then deleteNode_def subtree_row_safe)

lemma move_root_or_inside:
  assumes "validatePath (JString source) = Inr src"
    and "validatePath (JString destination) = Inr dest"
    and "src = ''/'' \<or> dest = ''/'' \<or> startsWith dest (src @ ''/'')"
  shows "move s sessionId source destination store = (Inl (VfsError EINVAL), s)"
  using assms by (auto simp: move_def validated_ok)

lemma move_absent_source:
  assumes "validatePath (JString source) = Inr src"
    and "validatePath (JString destination) = Inr dest"
    and "src \<noteq> ''/''" "dest \<noteq> ''/''" "\<not> startsWith dest (src @ ''/'')"
    and "getNode s (namespaceOf sessionId store) src = None"
  shows "fst (move s sessionId source destination store) = Inl (VfsError ENOENT)"
  using assms getNode_resolved [of src s sessionId store]
  by (simp add: move_def validated_ok ns_and_then)

lemma move_occupied_destination:
  assumes "validatePath (JString source) = Inr src"
    and "validatePath (JString destination) = Inr dest"
    and "src \<noteq> ''/''" "dest \<noteq> ''/''" "\<not> startsWith dest (src @ ''/'')"
    and "getNode s (namespaceOf sessionId store) src \<noteq> None"
    and "getNode s (namespaceOf sessionId store) dest \<noteq> None"
  shows "fst (move s sessionId source destination store) = Inl (VfsError EEXIST)"
  using assms getNode_resolved [of src s sessionId store]
    getNode_resolved [of dest s sessionId store]
  by (auto simp: move_def validated_ok ns_and_then)

lemma stat_absent:
  assumes "validatePath (JString p) = Inr q"
    and "getNode (snd (resolveNamespace s sessionId store)) (namespaceOf sessionId store) q = None"
  shows "fst (stat s sessionId p store) =
           Inr \<lparr>exists = False, stat_type = None, stat_size = None, stat_children = None\<rparr>"
  using assms by (simp add: stat_def validated_ok ns_and_then)

lemma stat_file:
  assumes "validatePath (JString p) = Inr q"
    and "getNode s (namespaceOf sessionId store) q = Some n" "node_type n = File"
  shows "fst (stat s sessionId p store) =
           Inr \<lparr>exists = True, stat_type = Some File,
                 stat_size = Some (length (case content n of None \<Rightarrow> [] | Some c \<Rightarrow> c)),
                 stat_children = None\<rparr>"
  using assms getNode_resolved [of q s sessionId store]
  by (simp add: stat_def validated_ok ns_and_then)

lemma stat_safe_directory:
  assumes "validatePath (JString p) = Inr q" "like_safe q"
    and "getNode s (namespaceOf sessionId store) q = Some n" "node_type n = Directory"
  shows "fst (stat s sessionId p store) =
           Inr \<lparr>exists = True, stat_type = Some Directory, stat_size = None,
                 stat_children =
                   Some (length (filter (is_child (namespaceOf sessionId store) q)
                           (vfs_nodes (snd (resolveNamespace s sessionId store)))))\<rparr>"
  using assms getNode_resolved [of q s sessionId store]
  by (simp add: stat_def validated_ok ns_and_then countChildren_def child_row_safe)

lemma ls_absent:
  assumes "validatePath (JString p) = Inr q"
    and "getNode (snd (resolveNamespace s sessionId store)) (namespaceOf sessionId store) q = None"
  shows "fst (ls localeCompare s sessionId p store) = Inl (VfsError ENOENT)"
  using assms by (simp add: ls_def validated_ok ns_and_then)

lemma ls_file:
  assumes "validatePath (JString p) = Inr q"
    and "getNode s (namespaceOf sessionId store) q = Some n" "node_type n = File"
  shows "fst (ls localeCompare s sessionId p store) = Inl (VfsError ENOTDIR)"
  using assms getNode_resolved [of q s sessionId store]
  by (simp add: ls_def validated_ok ns_and_then)

lemma ls_safe_directory:
  assumes "validatePath (JString p) = Inr q" "like_safe q"
    and "getNode s (namespaceOf sessionId store) q = Some n" "node_type n = Directory"
  shows "fst (ls localeCompare s sessionId p store) =
           Inr (sort_by (ls_compare localeCompare)
                  (map (\<lambda>c. \<lparr>name = basename (path c), entry_type = node_type c\<rparr>)
                     (filter (is_child (namespaceOf sessionId store) q)
                        (vfs_nodes (snd (resolveNamespace s sessionId store))))))"
  using assms getNode_resolved [of q s sessionId store]
  by (simp add: ls_def validated_ok ns_and_then listChildren_def child_row_safe)

lemma length_insert_by [simp]: "length (insert_by cmp x xs) = Suc (length xs)"
  by (induction xs) auto

lemma set_insert_by [simp]: "set (insert_by cmp x xs) = insert x (set xs)"
  by (induction xs) auto

lemma length_sort_by [simp]: "length (sort_by cmp xs) = length xs"
  by (induction xs) (auto simp: sort_by_def)

lemma set_sort_by [simp]: "set (sort_by cmp xs) = set xs"
  by (induction xs) (auto simp: sort_by_def)

lemma moveNode_safe_path:
  "like_safe src \<Longrightarrow>
     moveNode s n src dest =
       (let rows = map (\<lambda>r. if in_subtree n src r
                             then r\<lparr>path := dest @ drop (length src) (path r)\<rparr> else r)
                       (vfs_nodes s)
        in if distinct (map (\<lambda>r. (session_id r, path r)) rows)
           then (Inr (), s\<lparr>vfs_nodes := rows\<rparr>)
           else (Inl (DatabaseError UniqueViolation), s))"
  by (simp add: moveNode_def subtree_row_safe substr_def cong: if_cong)

lemma sorted_insert_by:
  assumes "total_preorder cmp" "sorted_wrt (\<lambda>x y. cmp x y \<le> 0) xs"
  shows "sorted_wrt (\<lambda>x y. cmp x y \<le> 0) (insert_by cmp x xs)"
  using assms(2)
proof (induction xs)
  case Nil
  then show ?case by simp
next
  case (Cons y ys)
  have tot: "cmp x y \<le> 0 \<or> cmp y x \<le> 0"
    using assms(1) by (simp add: total_preorder_def)
  have tr: "\<And>a b c. cmp a b \<le> 0 \<Longrightarrow> cmp b c \<le> 0 \<Longrightarrow> cmp a c \<le> 0"
    using assms(1) unfolding total_preorder_def by blast
  show ?case
  proof (cases "cmp x y \<le> 0")
    case True
    then have "\<forall>z \<in> set ys. cmp x z \<le> 0"
      using Cons.prems tr by auto
    then show ?thesis using True Cons.prems by simp
  next
    case False
    then have "cmp y x \<le> 0" using tot by simp
    then show ?thesis using False Cons by auto
  qed
qed

lemma sorted_sort_by:
  "total_preorder cmp \<Longrightarrow> sorted_wrt (\<lambda>x y. cmp x y \<le> 0) (sort_by cmp xs)"
  by (induction xs) (simp_all add: sort_by_def sorted_insert_by)

lemma ls_compare_preorder:
  assumes "total_preorder localeCompare"
  shows "total_preorder (ls_compare localeCompare)"
proof -
  have tot: "\<And>a b. localeCompare a b \<le> 0 \<or> localeCompare b a \<le> 0"
    using assms by (simp add: total_preorder_def)
  have tr: "\<And>a b c. localeCompare a b \<le> 0 \<Longrightarrow> localeCompare b c \<le> 0
              \<Longrightarrow> localeCompare a c \<le> 0"
    using assms unfolding total_preorder_def by blast
  have "ls_compare localeCompare x y \<le> 0 \<or> ls_compare localeCompare y x \<le> 0" for x y
    using tot [of "name x" "name y"]
    by (cases "entry_type x"; cases "entry_type y") (auto simp: ls_compare_def)
  moreover have "ls_compare localeCompare x z \<le> 0"
    if "ls_compare localeCompare x y \<le> 0" "ls_compare localeCompare y z \<le> 0" for x y z
    using that tr [of "name x" "name y" "name z"]
    by (cases "entry_type x"; cases "entry_type y"; cases "entry_type z")
       (auto simp: ls_compare_def split: if_splits)
  ultimately show ?thesis
    unfolding total_preorder_def by blast
qed

text \<open>
  The order of a listing, for a \<open>localeCompare\<close> that is a total preorder: no file
  stands before a directory, and two entries of one type stand in the order of
  their names.
\<close>

lemma ls_sorted:
  assumes "total_preorder localeCompare"
    and "fst (ls localeCompare s sessionId p store) = Inr entries"
  shows "sorted_wrt (\<lambda>a b. (entry_type a = Directory \<or> entry_type b = File)
                          \<and> (entry_type a = entry_type b
                               \<longrightarrow> localeCompare (name a) (name b) \<le> 0)) entries"
proof -
  obtain rows where "entries = sort_by (ls_compare localeCompare) rows"
    using assms(2)
    by (auto simp: ls_def validated_def ns_and_then split: sum.splits option.splits if_splits)
  then have "sorted_wrt (\<lambda>a b. ls_compare localeCompare a b \<le> 0) entries"
    using sorted_sort_by [OF ls_compare_preorder [OF assms(1)]] by simp
  moreover have "ls_compare localeCompare a b \<le> 0 \<Longrightarrow>
          (entry_type a = Directory \<or> entry_type b = File)
          \<and> (entry_type a = entry_type b \<longrightarrow> localeCompare (name a) (name b) \<le> 0)" for a b
    by (cases "entry_type a"; cases "entry_type b") (auto simp: ls_compare_def split: if_splits)
  ultimately show ?thesis
    by (rule sorted_wrt_mono_rel [rotated]) simp
qed

text \<open>The scenario of the test suite: a directory with two files and a subdirectory with one.\<close>

lemma rm_directory_scenario:
  "fst (rm (snd (write_file (snd (write_file (snd (write_file empty_backend
          ''s'' ''/dir/a.txt'' ''a'' None))
          ''s'' ''/dir/b.txt'' ''b'' None))
          ''s'' ''/dir/sub/c.txt'' ''c'' None))
        ''s'' ''/dir'' None) = Inr 5"
  by code_simp

lemma ls_scenario:
  "fst (ls compare_codes (snd (mkdir (snd (write_file (snd (write_file empty_backend
          ''s'' ''/src/index.ts'' ''code'' None))
          ''s'' ''/src/util.ts'' ''util'' None))
          ''s'' ''/src/lib'' None))
        ''s'' ''/src'' None)
     = Inr [\<lparr>name = ''lib'', entry_type = Directory\<rparr>,
            \<lparr>name = ''index.ts'', entry_type = File\<rparr>,
            \<lparr>name = ''util.ts'', entry_type = File\<rparr>]"
  by code_simp

section \<open>The claims\<close>

subsection \<open>C1: the checks of \<open>validatePath\<close>\<close>

lemma validatePath_rejects_iff:
  "(\<exists>e. validatePath v = Inl e) \<longleftrightarrow>
     (v = JOther \<or> (\<exists>input. v = JString input \<and>
        (length input > 4096 \<or> CHR 0x00 \<in> set input \<or> (\<exists>c \<in> set input. is_control c))))"
  by (cases v) (auto simp: validatePath_def MAX_PATH_LENGTH_def Let_def)

lemma validatePath_accepts:
  "validatePath (JString input) = Inr q \<longleftrightarrow>
     (length input \<le> 4096 \<and> (\<forall>c \<in> set input. \<not> is_control c) \<and> q = normalizePath input)"
proof -
  have "is_control (CHR 0x00)" by (simp add: is_control_def)
  then show ?thesis
    by (auto simp: validatePath_def MAX_PATH_LENGTH_def Let_def)
qed

text \<open>
  C1. \<open>validatePath\<close> has no test of the segment depth. The path \<open>/a/a/.../a\<close> of 51
  segments has 102 characters, none of them a control character, and is in normal
  form: \<open>validatePath\<close> returns it. (By \<open>validatePath_rejects_iff\<close> the function
  throws exactly for a value that is not a string, a string longer than 4096, and a
  string with a null byte or another control character.)
\<close>

theorem validatePath_accepts_depth_51:
  "length (filter (\<lambda>seg. seg \<noteq> []) (split_slash deep_path)) = 51
   \<and> validatePath (JString deep_path) = Inr deep_path"
  by code_simp

subsection \<open>C2: \<open>created_parents\<close>\<close>

text \<open>
  C2. \<open>created_parents\<close> is \<open>ancestors.length > 1\<close>, whatever the store holds. In
  \<open>nested_file\<close>, the store after \<open>write("/deep/nested/file.txt", "c")\<close>, every
  ancestor of that path is a directory, and the same \<open>write\<close> again reports
  \<open>created_parents = true\<close> although it creates none.
\<close>

theorem second_write_reports_created_parents:
  "map (\<lambda>a. (a, is_type (getNode nested_file ''s'' a) Directory))
       (ancestorPaths ''/deep/nested/file.txt'')
     = [(''/'', True), (''/deep'', True), (''/deep/nested'', True)]
   \<and> fst (write_file nested_file ''s'' ''/deep/nested/file.txt'' ''c'' None)
       = Inr \<lparr>created_parents = True\<rparr>
   \<and> map path (vfs_nodes (snd (write_file nested_file ''s'' ''/deep/nested/file.txt'' ''c'' None)))
       = map path (vfs_nodes nested_file)"
  by code_simp

subsection \<open>C3: write, then read\<close>




subsection \<open>C4: \<open>move\<close>\<close>

text \<open>
  C4. The \<open>UPDATE\<close> of \<open>moveNode\<close> selects the descendants by
  \<open>path LIKE $2 || '/%'\<close> with the source path as pattern text, neither \<open>%\<close>, \<open>_\<close> nor
  the backslash escaped. In \<open>backslash_tree\<close> the directory \<open>/a\b\<close> holds the file
  \<open>/a\b/f\<close>; \<open>move("/a\b", "/c")\<close> succeeds, renames the directory and leaves the file
  behind (the pattern \<open>/a\b/%\<close> asks for \<open>/ab/\<close>). In \<open>underscore_tree\<close> the directory
  \<open>/a_b\<close> is empty and \<open>/a-b/f\<close> is a file of another directory;
  \<open>move("/a_b", "/c")\<close> renames that file to \<open>/c/f\<close>. The failures of \<open>move\<close> are
  those of the claim, in its order (\<open>move_root_or_inside\<close>, \<open>move_absent_source\<close>,
  \<open>move_occupied_destination\<close>), and for a source path that \<open>LIKE\<close> reads literally
  the statement renames the node and its descendants, and no other row
  (\<open>moveNode_safe_path\<close>).
\<close>

theorem move_selects_by_unescaped_like:
  "map path (vfs_nodes backslash_tree) = [''/'', backslash_dir, backslash_dir @ ''/f'']
   \<and> fst (move backslash_tree ''s'' backslash_dir ''/c'' None) = Inr ()
   \<and> map path (vfs_nodes (snd (move backslash_tree ''s'' backslash_dir ''/c'' None)))
       = [''/'', ''/c'', backslash_dir @ ''/f'']
   \<and> map path (vfs_nodes underscore_tree) = [''/'', ''/a_b'', ''/a-b'', ''/a-b/f'']
   \<and> fst (move underscore_tree ''s'' ''/a_b'' ''/c'' None) = Inr ()
   \<and> map path (vfs_nodes (snd (move underscore_tree ''s'' ''/a_b'' ''/c'' None)))
       = [''/'', ''/c'', ''/a-b'', ''/c/f'']"
  by code_simp

subsection \<open>C5: \<open>rm\<close>\<close>

text \<open>
  C5. \<open>deleteNode\<close> selects the descendants by \<open>path LIKE $3\<close> with
  \<open>$3 = path + "/%"\<close>, unescaped. \<open>rm("/a\b")\<close> in \<open>backslash_tree\<close> deletes the
  directory, returns 1 and leaves its file \<open>/a\b/f\<close> in the table; \<open>rm("/a_b")\<close> in
  \<open>underscore_tree\<close> returns 2, having deleted the file \<open>/a-b/f\<close> of another
  directory with the empty directory \<open>/a_b\<close>. The failures of \<open>rm\<close> are those of the
  claim (\<open>rm_root\<close>, \<open>rm_absent\<close>), and for a path that \<open>LIKE\<close> reads literally \<open>rm\<close>
  deletes the node and its descendants, no other row, and returns their number
  (\<open>rm_safe_path\<close>; \<open>rm_directory_scenario\<close> is the scenario of the claim).
\<close>

theorem rm_selects_by_unescaped_like:
  "map path (vfs_nodes backslash_tree) = [''/'', backslash_dir, backslash_dir @ ''/f'']
   \<and> fst (rm backslash_tree ''s'' backslash_dir None) = Inr 1
   \<and> map path (vfs_nodes (snd (rm backslash_tree ''s'' backslash_dir None)))
       = [''/'', backslash_dir @ ''/f'']
   \<and> map path (vfs_nodes underscore_tree) = [''/'', ''/a_b'', ''/a-b'', ''/a-b/f'']
   \<and> fst (rm underscore_tree ''s'' ''/a_b'' None) = Inr 2
   \<and> map path (vfs_nodes (snd (rm underscore_tree ''s'' ''/a_b'' None))) = [''/'', ''/a-b'']"
  by code_simp

subsection \<open>C6: \<open>stat\<close>\<close>

text \<open>
  C6. \<open>countChildren\<close> selects the children by two \<open>LIKE\<close> patterns built from the
  directory path, unescaped. In \<open>underscore_tree\<close> no path begins with \<open>/a_b/\<close>, and
  \<open>stat("/a_b")\<close> reports one child: the file \<open>/a-b/f\<close>. In \<open>backslash_tree\<close> the
  directory \<open>/a\b\<close> holds one file and \<open>stat\<close> reports no child. For an absent path
  and for a file \<open>stat\<close> answers as the claim says (\<open>stat_absent\<close>, \<open>stat_file\<close>), and
  for a directory whose path \<open>LIKE\<close> reads literally it counts the immediate children
  (\<open>stat_safe_directory\<close>).
\<close>

theorem stat_counts_by_unescaped_like:
  "map path (vfs_nodes underscore_tree) = [''/'', ''/a_b'', ''/a-b'', ''/a-b/f'']
   \<and> fst (stat underscore_tree ''s'' ''/a_b'' None)
       = Inr \<lparr>exists = True, stat_type = Some Directory, stat_size = None,
               stat_children = Some 1\<rparr>
   \<and> map path (vfs_nodes backslash_tree) = [''/'', backslash_dir, backslash_dir @ ''/f'']
   \<and> fst (stat backslash_tree ''s'' backslash_dir None)
       = Inr \<lparr>exists = True, stat_type = Some Directory, stat_size = None,
               stat_children = Some 0\<rparr>"
  by code_simp

subsection \<open>C7: \<open>ls\<close>\<close>

text \<open>
  C7. \<open>listChildren\<close> has the \<open>WHERE\<close> clause of \<open>countChildren\<close>. \<open>ls("/a_b")\<close> in
  \<open>underscore_tree\<close> lists the file \<open>f\<close> of the directory \<open>/a-b\<close>, and \<open>ls("/a\b")\<close>
  in \<open>backslash_tree\<close> lists nothing although the directory holds \<open>f\<close>. The failures
  of \<open>ls\<close> are those of the claim (\<open>ls_absent\<close>, \<open>ls_file\<close>); every listing has its
  directories before its files and each group in the order of \<open>localeCompare\<close>
  (\<open>ls_sorted\<close>), and for a directory whose path \<open>LIKE\<close> reads literally the entries are
  the immediate children (\<open>ls_safe_directory\<close>).
\<close>

theorem ls_lists_by_unescaped_like:
  "map path (vfs_nodes underscore_tree) = [''/'', ''/a_b'', ''/a-b'', ''/a-b/f'']
   \<and> fst (ls compare_codes underscore_tree ''s'' ''/a_b'' None)
       = Inr [\<lparr>name = ''f'', entry_type = File\<rparr>]
   \<and> map path (vfs_nodes backslash_tree) = [''/'', backslash_dir, backslash_dir @ ''/f'']
   \<and> fst (ls compare_codes backslash_tree ''s'' backslash_dir None) = Inr []"
  by code_simp

subsection \<open>C8: \<open>glob\<close>\<close>

lemma vfs_nodes_insertDir:
  "vfs_nodes (snd (insertDir s n p)) = vfs_nodes s \<or>
   vfs_nodes (snd (insertDir s n p)) =
     vfs_nodes s @ [\<lparr>session_id = n, path = p, node_type = Directory, content = None\<rparr>]"
  by (simp add: insertDir_def insert_on_conflict_def)

lemma vfs_nodes_insertSession [simp]: "vfs_nodes (insertSession s i b) = vfs_nodes s"
  by (simp add: insertSession_def)

lemma vfs_nodes_ensureNamespace:
  "vfs_nodes (snd (ensureNamespace s i b)) = vfs_nodes s \<or>
   vfs_nodes (snd (ensureNamespace s i b)) =
     vfs_nodes s @ [\<lparr>session_id = i, path = ''/'', node_type = Directory, content = None\<rparr>]"
proof (cases "i \<in> knownNamespaces s")
  case True
  then show ?thesis by (simp add: ensureNamespace_def)
next
  case False
  obtain r s1 where i: "insertDir (insertSession s i b) i ''/'' = (r, s1)"
    by (cases "insertDir (insertSession s i b) i ''/''")
  have "vfs_nodes s1 = vfs_nodes s \<or>
        vfs_nodes s1 =
          vfs_nodes s @ [\<lparr>session_id = i, path = ''/'', node_type = Directory, content = None\<rparr>]"
    using vfs_nodes_insertDir [of "insertSession s i b" i "''/''"] i
    by simp
  then show ?thesis
    using False i by (cases r) (auto simp: ensureNamespace_def)
qed

lemma vfs_nodes_resolveNamespace:
  "vfs_nodes (snd (resolveNamespace s sessionId store)) = vfs_nodes s \<or>
   vfs_nodes (snd (resolveNamespace s sessionId store)) =
     vfs_nodes s @ [\<lparr>session_id = namespaceOf sessionId store, path = ''/'',
                     node_type = Directory, content = None\<rparr>]"
proof -
  let ?i = "namespaceOf sessionId store"
  have "snd (resolveNamespace s sessionId store) =
          snd (ensureNamespace s ?i (store \<noteq> None \<and> store \<noteq> Some []))"
    by (auto simp: resolveNamespace_def namespaceOf_def ensureStore_def ensureSession_def
        and_then_def split: option.splits prod.splits sum.splits)
  then show ?thesis
    using vfs_nodes_ensureNamespace [of s ?i] by simp
qed

lemma allFilePaths_resolveNamespace:
  "allFilePaths collate (snd (resolveNamespace s sessionId store)) n = allFilePaths collate s n"
  using vfs_nodes_resolveNamespace [of s sessionId store]
  by (auto simp: allFilePaths_def)

lemma snd_resolveNamespace_known:
  "namespaceOf sessionId store \<in> knownNamespaces s
     \<Longrightarrow> snd (resolveNamespace s sessionId store) = s"
  by (simp add: resolveNamespace_known)

text \<open>
  C8, as the code has it. \<open>glob\<close> fails with \<open>EINVAL\<close> exactly when the namespace holds
  more than 10000 file rows (with exactly 10000 it goes on). Within the ceiling, and
  when the pattern compiles, it returns the paths of the file rows of the namespace,
  directories excluded, that the compiled pattern accepts, in the order of the
  collation. \<open>glob\<close> resolves its namespace first, like every operation: the store it
  leaves is the one \<open>resolveNamespace\<close> leaves, which on the first use of a namespace
  by this backend object has the session row and the root directory added. The
  node table is the one found, or the one found with that root directory appended;
  in a namespace the backend knows, nothing changes.
\<close>

theorem glob_ceiling_and_provisioning:
  "(fst (glob picomatch collate s sessionId pattern store) = Inl (VfsError EINVAL)
      \<longleftrightarrow> length (filter (\<lambda>r. session_id r = namespaceOf sessionId store \<and> node_type r = File)
                        (vfs_nodes s)) > 10000)
   \<and> (length (filter (\<lambda>r. session_id r = namespaceOf sessionId store \<and> node_type r = File)
                     (vfs_nodes s)) \<le> 10000
        \<and> picomatch pattern = Some isMatch
      \<longrightarrow> fst (glob picomatch collate s sessionId pattern store)
            = Inr (filter isMatch (allFilePaths collate s (namespaceOf sessionId store))))
   \<and> set (allFilePaths collate s (namespaceOf sessionId store))
        = path ` {r \<in> set (vfs_nodes s).
                   session_id r = namespaceOf sessionId store \<and> node_type r = File}
   \<and> snd (glob picomatch collate s sessionId pattern store)
        = snd (resolveNamespace s sessionId store)
   \<and> (namespaceOf sessionId store \<in> knownNamespaces s
      \<longrightarrow> snd (glob picomatch collate s sessionId pattern store) = s)
   \<and> (vfs_nodes (snd (glob picomatch collate s sessionId pattern store)) = vfs_nodes s
      \<or> vfs_nodes (snd (glob picomatch collate s sessionId pattern store))
          = vfs_nodes s @ [\<lparr>session_id = namespaceOf sessionId store, path = ''/'',
                             node_type = Directory, content = None\<rparr>])"
proof -
  let ?i = "namespaceOf sessionId store"
  let ?s1 = "snd (resolveNamespace s sessionId store)"
  let ?all = "allFilePaths collate s ?i"
  have g: "glob picomatch collate s sessionId pattern store =
            (if length ?all > MAX_GLOB_PATHS then (Inl (VfsError EINVAL), ?s1)
             else (case picomatch pattern of
                     None \<Rightarrow> (Inl PatternError, ?s1)
                   | Some isMatch \<Rightarrow> (Inr (filter isMatch ?all), ?s1)))"
    by (simp add: glob_def ns_and_then allFilePaths_resolveNamespace Let_def
        split: option.splits)
  have n: "length ?all =
             length (filter (\<lambda>r. session_id r = ?i \<and> node_type r = File) (vfs_nodes s))"
    by (simp add: allFilePaths_def)
  have "fst (glob picomatch collate s sessionId pattern store) = Inl (VfsError EINVAL)
      \<longleftrightarrow> length (filter (\<lambda>r. session_id r = ?i \<and> node_type r = File) (vfs_nodes s)) > 10000"
    using n by (auto simp: g MAX_GLOB_PATHS_def split: option.splits)
  moreover have "length (filter (\<lambda>r. session_id r = ?i \<and> node_type r = File) (vfs_nodes s))
          \<le> 10000 \<and> picomatch pattern = Some isMatch
      \<longrightarrow> fst (glob picomatch collate s sessionId pattern store) = Inr (filter isMatch ?all)"
    using n by (auto simp: g MAX_GLOB_PATHS_def)
  moreover have "set ?all = path ` {r \<in> set (vfs_nodes s). session_id r = ?i \<and> node_type r = File}"
    by (auto simp: allFilePaths_def)
  moreover have s: "snd (glob picomatch collate s sessionId pattern store) = ?s1"
    by (simp add: g split: option.splits)
  moreover have "?i \<in> knownNamespaces s
      \<longrightarrow> snd (glob picomatch collate s sessionId pattern store) = s"
    using s by (simp add: snd_resolveNamespace_known)
  moreover have "vfs_nodes (snd (glob picomatch collate s sessionId pattern store)) = vfs_nodes s
      \<or> vfs_nodes (snd (glob picomatch collate s sessionId pattern store))
          = vfs_nodes s @ [\<lparr>session_id = ?i, path = ''/'', node_type = Directory,
                             content = None\<rparr>]"
    using s vfs_nodes_resolveNamespace [of s sessionId store] by simp
  ultimately show ?thesis by blast
qed

theorem glob_ceiling_and_provisioning_witness:
  "length (filter (\<lambda>r. session_id r = namespaceOf ''s'' None \<and> node_type r = File)
            (vfs_nodes nested_file)) \<le> 10000
   \<and> suffix_glob ''.txt'' = Some (the (suffix_glob ''.txt''))
   \<and> namespaceOf ''s'' None \<in> knownNamespaces nested_file
   \<and> fst (glob suffix_glob compare_codes nested_file ''s'' ''.txt'' None)
       = Inr [''/deep/nested/file.txt'']
   \<and> fst (glob suffix_glob compare_codes nested_file ''s'' ''.txt'' None)
       \<noteq> Inl (VfsError EINVAL)
   \<and> snd (glob suffix_glob compare_codes nested_file ''s'' ''.txt'' None) = nested_file"
proof -
  have n: "length (filter (\<lambda>r. session_id r = namespaceOf ''s'' None \<and> node_type r = File)
            (vfs_nodes nested_file)) \<le> 10000"
    by code_simp
  have m: "suffix_glob ''.txt'' = Some (the (suffix_glob ''.txt''))"
    by (simp add: suffix_glob_def)
  have k: "namespaceOf ''s'' None \<in> knownNamespaces nested_file"
    by code_simp
  have f: "filter (the (suffix_glob ''.txt''))
             (allFilePaths compare_codes nested_file (namespaceOf ''s'' None))
           = [''/deep/nested/file.txt'']"
    by code_simp
  note g = glob_ceiling_and_provisioning
      [of suffix_glob compare_codes nested_file "''s''" "''.txt''" None
          "the (suffix_glob ''.txt'')"]
  have r: "fst (glob suffix_glob compare_codes nested_file ''s'' ''.txt'' None)
       = Inr [''/deep/nested/file.txt'']"
    using g n m f by simp
  have e: "fst (glob suffix_glob compare_codes nested_file ''s'' ''.txt'' None)
       \<noteq> Inl (VfsError EINVAL)"
    using g n by linarith
  have u: "snd (glob suffix_glob compare_codes nested_file ''s'' ''.txt'' None) = nested_file"
    using g k by blast
  show ?thesis
    using n m k r e u by blast
qed

theorem glob_provisions_namespace:
  "vfs_nodes empty_backend = []
   \<and> vfs_nodes (snd (glob suffix_glob compare_codes empty_backend ''s'' ''.txt'' None))
       = [\<lparr>session_id = ''s'', path = ''/'', node_type = Directory, content = None\<rparr>]
   \<and> map id_col (vfs_sessions (snd (glob suffix_glob compare_codes empty_backend ''s'' ''.txt'' None)))
       = [''s'']
   \<and> snd (glob suffix_glob compare_codes empty_backend ''s'' ''.txt'' None) \<noteq> empty_backend"
proof -
  have "vfs_nodes empty_backend = []
   \<and> vfs_nodes (snd (glob suffix_glob compare_codes empty_backend ''s'' ''.txt'' None))
       = [\<lparr>session_id = ''s'', path = ''/'', node_type = Directory, content = None\<rparr>]
   \<and> map id_col (vfs_sessions (snd (glob suffix_glob compare_codes empty_backend ''s'' ''.txt'' None)))
       = [''s'']"
    by code_simp
  then show ?thesis by force
qed

subsection \<open>C9: isolation of namespaces\<close>





subsection \<open>C10: a file at an ancestor path\<close>







end
